theory Spec2Isabelle
  imports Main "HOL-Library.Word"
begin

section \<open>The WeeChat relay codec of \<open>weechat_hotbar.py\<close>\<close>

text \<open>
  The module is Python 3. Its \<open>Protocol\<close> class keeps the undecoded rest of a message in
  the attribute \<open>self.data\<close>; every \<open>_obj_*\<close> method reads from the front of it and
  stores what is left. The model passes that attribute explicitly: a decoder takes the
  value of \<open>self.data\<close> and returns either the exception it raises or its result with
  the new value of \<open>self.data\<close>.
\<close>

subsection \<open>Python values\<close>

type_synonym byte = "8 word"

text \<open>A Python \<open>str\<close> is a sequence of Unicode code points.\<close>

type_synonym pystr = "nat list"

definition py :: "string \<Rightarrow> pystr" where
  "py s = map of_char s"

text \<open>
  \<open>self.data\<close> holds \<open>bytes\<close> most of the time, but the source also assigns the
  \<open>str\<close> literal \<open>''\<close> to it (and, on the compressed path, a formatted \<open>str\<close>).
\<close>

datatype pydata = Bytes "byte list" | Str pystr

datatype pyerror =
    StructError
  | TypeError
  | KeyError
  | ValueError
  | IndexError
  | AttributeError
  | UnicodeDecodeError
  | ZlibError
  | SocketError nat
  | RecursionError

text \<open>
  Decoded values. \<open>PWeechatDict\<close> is the \<open>WeechatDict\<close> class (an \<open>OrderedDict\<close>),
  \<open>PDict\<close> a plain \<open>dict\<close>; both keep insertion order, so both are association lists.
\<close>

datatype pyval =
    PNone
  | PInt int
  | PStr pystr
  | PList "pyval list"
  | PTuple "pyval list"
  | PDict "(pyval \<times> pyval) list"
  | PWeechatDict "(pyval \<times> pyval) list"

type_synonym 'a decoder = "pydata \<Rightarrow> pyerror + ('a \<times> pydata)"

definition py_len :: "pydata \<Rightarrow> nat" where
  "py_len d = (case d of Bytes bs \<Rightarrow> length bs | Str s \<Rightarrow> length s)"

text \<open>The slice \<open>xs[0:n]\<close>: a negative \<open>n\<close> counts from the end.\<close>

definition slice_to :: "'a list \<Rightarrow> int \<Rightarrow> 'a list" where
  "slice_to xs n = (if n < 0 then take (nat (int (length xs) + n)) xs else take (nat n) xs)"

text \<open>The slice \<open>xs[n:]\<close>.\<close>

definition slice_from :: "'a list \<Rightarrow> int \<Rightarrow> 'a list" where
  "slice_from xs n = (if n < 0 then drop (nat (int (length xs) + n)) xs else drop (nat n) xs)"

definition data_to :: "pydata \<Rightarrow> int \<Rightarrow> pydata" where
  "data_to d n = (case d of Bytes bs \<Rightarrow> Bytes (slice_to bs n) | Str s \<Rightarrow> Str (slice_to s n))"

definition data_from :: "pydata \<Rightarrow> int \<Rightarrow> pydata" where
  "data_from d n = (case d of Bytes bs \<Rightarrow> Bytes (slice_from bs n) | Str s \<Rightarrow> Str (slice_from s n))"

subsection \<open>The \<open>struct\<close> module\<close>

text \<open>
  \<open>struct.unpack\<close> raises \<open>TypeError\<close> on a \<open>str\<close> and \<open>struct.error\<close> on a
  buffer of the wrong size.
\<close>

definition unpack_b :: "pydata \<Rightarrow> pyerror + int" where
  "unpack_b d = (case d of Str s \<Rightarrow> Inl TypeError
     | Bytes bs \<Rightarrow> (case bs of [b] \<Rightarrow> Inr (sint b) | _ \<Rightarrow> Inl StructError))"

definition unpack_B :: "pydata \<Rightarrow> pyerror + int" where
  "unpack_B d = (case d of Str s \<Rightarrow> Inl TypeError
     | Bytes bs \<Rightarrow> (case bs of [b] \<Rightarrow> Inr (uint b) | _ \<Rightarrow> Inl StructError))"

definition be32 :: "byte \<Rightarrow> byte \<Rightarrow> byte \<Rightarrow> byte \<Rightarrow> int" where
  "be32 a b c d =
     (let u = uint a * 16777216 + uint b * 65536 + uint c * 256 + uint d
      in if u < 2147483648 then u else u - 4294967296)"

definition unpack_i :: "pydata \<Rightarrow> pyerror + int" where
  "unpack_i d = (case d of Str s \<Rightarrow> Inl TypeError
     | Bytes bs \<Rightarrow> (case bs of [a, b, c, e] \<Rightarrow> Inr (be32 a b c e) | _ \<Rightarrow> Inl StructError))"

definition pack_i :: "int \<Rightarrow> pyerror + byte list" where
  "pack_i n =
     (if - 2147483648 \<le> n \<and> n < 2147483648
      then (let u = n mod 4294967296
            in Inr [word_of_int (u div 16777216), word_of_int (u div 65536),
                    word_of_int (u div 256), word_of_int u])
      else Inl StructError)"

subsection \<open>\<open>bytes.decode()\<close>: strict UTF-8\<close>

definition cont :: "nat \<Rightarrow> bool" where
  "cont c = (128 \<le> c \<and> c < 192)"

fun utf8 :: "nat list \<Rightarrow> pystr option" where
  "utf8 [] = Some []"
| "utf8 (b # bs) =
     (if b < 128 then map_option (Cons b) (utf8 bs)
      else if 194 \<le> b \<and> b < 224 then
        (case bs of
           c1 # r \<Rightarrow>
             if cont c1 then map_option (Cons ((b - 192) * 64 + (c1 - 128))) (utf8 r)
             else None
         | _ \<Rightarrow> None)
      else if 224 \<le> b \<and> b < 240 then
        (case bs of
           c1 # c2 # r \<Rightarrow>
             if cont c1 \<and> cont c2 \<and> (b = 224 \<longrightarrow> 160 \<le> c1) \<and> (b = 237 \<longrightarrow> c1 < 160)
             then map_option (Cons ((b - 224) * 4096 + (c1 - 128) * 64 + (c2 - 128))) (utf8 r)
             else None
         | _ \<Rightarrow> None)
      else if 240 \<le> b \<and> b < 245 then
        (case bs of
           c1 # c2 # c3 # r \<Rightarrow>
             if cont c1 \<and> cont c2 \<and> cont c3 \<and> (b = 240 \<longrightarrow> 144 \<le> c1) \<and> (b = 244 \<longrightarrow> c1 < 144)
             then map_option
                    (Cons ((b - 240) * 262144 + (c1 - 128) * 4096 + (c2 - 128) * 64 + (c3 - 128)))
                    (utf8 r)
             else None
         | _ \<Rightarrow> None)
      else None)"

definition bytes_decode :: "byte list \<Rightarrow> pyerror + pystr" where
  "bytes_decode bs =
     (case utf8 (map unat bs) of None \<Rightarrow> Inl UnicodeDecodeError | Some s \<Rightarrow> Inr s)"

subsection \<open>\<open>int(str)\<close> in base 10\<close>

text \<open>
  Python strips white space, accepts one sign, then decimal digits with single
  underscores between digits. Every string the codec passes to \<open>int\<close> comes from
  \<open>_obj_len_data\<close>, so its code points are below 256; the white space and digits
  of that range are the ones listed here.
\<close>

definition is_space :: "nat \<Rightarrow> bool" where
  "is_space c = ((9 \<le> c \<and> c \<le> 13) \<or> c = 32 \<or> c = 133 \<or> c = 160)"

fun digits :: "bool \<Rightarrow> int \<Rightarrow> pystr \<Rightarrow> int option" where
  "digits after_digit acc [] = (if after_digit then Some acc else None)"
| "digits after_digit acc (c # cs) =
     (if 48 \<le> c \<and> c \<le> 57 then digits True (acc * 10 + (int c - 48)) cs
      else if c = 95 \<and> after_digit then digits False acc cs
      else None)"

definition strip :: "pystr \<Rightarrow> pystr" where
  "strip s = rev (dropWhile is_space (rev (dropWhile is_space s)))"

definition py_int :: "pystr \<Rightarrow> pyerror + int" where
  "py_int s =
     (case strip s of
        [] \<Rightarrow> Inl ValueError
      | c # cs \<Rightarrow>
          (case (if c = 45 then map_option uminus (digits False 0 cs)
                 else if c = 43 then digits False 0 cs
                 else digits False 0 (c # cs)) of
             None \<Rightarrow> Inl ValueError
           | Some n \<Rightarrow> Inr n))"

subsection \<open>Primitive decoders\<close>

text \<open>\<open>_obj_type\<close>: read type in data (3 chars).\<close>

definition obj_type :: "pystr decoder" where
  "obj_type d =
     (if py_len d < 3 then Inr ([], Str [])
      else (case d of
              Str s \<Rightarrow> Inl AttributeError
            | Bytes bs \<Rightarrow>
                (case bytes_decode (slice_to bs 3) of
                   Inl e \<Rightarrow> Inl e
                 | Inr objtype \<Rightarrow> Inr (objtype, Bytes (slice_from bs 3)))))"

text \<open>\<open>_obj_char\<close>: read a char in data.\<close>

definition obj_char :: "int decoder" where
  "obj_char d =
     (if py_len d < 1 then Inr (0, d)
      else (case unpack_b (data_to d 1) of
              Inl e \<Rightarrow> Inl e
            | Inr v \<Rightarrow> Inr (v, data_from d 1)))"

text \<open>\<open>_obj_int\<close>: read an integer in data (4 bytes).\<close>

definition obj_int :: "int decoder" where
  "obj_int d =
     (if py_len d < 4 then Inr (0, Str [])
      else (case unpack_i (data_to d 4) of
              Inl e \<Rightarrow> Inl e
            | Inr v \<Rightarrow> Inr (v, data_from d 4)))"

text \<open>
  \<open>"".join(map(chr, list(value)))\<close>: a \<open>bytes\<close> value lists its bytes as integers;
  a \<open>str\<close> lists one-character strings, on which \<open>chr\<close> raises \<open>TypeError\<close>.
\<close>

definition join_chr :: "pydata \<Rightarrow> pyerror + pystr" where
  "join_chr v =
     (case v of Bytes bs \<Rightarrow> Inr (map unat bs)
      | Str s \<Rightarrow> (if s = [] then Inr [] else Inl TypeError))"

text \<open>
  \<open>_obj_len_data\<close>: read length (1 or 4 bytes), then value with this length.
  The result \<open>None\<close> is Python's \<open>None\<close>.
\<close>

definition len_data_value :: "int \<Rightarrow> pystr option decoder" where
  "len_data_value len d =
     (if len < 0 then Inr (None, d)
      else if len > 0 then
        (case join_chr (data_to d len) of
           Inl e \<Rightarrow> Inl e
         | Inr s \<Rightarrow> Inr (Some s, data_from d len))
      else
        (case join_chr (Str []) of
           Inl e \<Rightarrow> Inl e
         | Inr s \<Rightarrow> Inr (Some s, d)))"

definition obj_len_data :: "nat \<Rightarrow> pystr option decoder" where
  "obj_len_data length_size d =
     (if py_len d < length_size then Inr (None, Str [])
      else if length_size = 1 then
        (case unpack_B (data_to d 1) of
           Inl e \<Rightarrow> Inl e
         | Inr len \<Rightarrow> len_data_value len (data_from d 1))
      else
        (case obj_int d of
           Inl e \<Rightarrow> Inl e
         | Inr (len, d') \<Rightarrow> len_data_value len d'))"

text \<open>\<open>_obj_long\<close>: read a long integer in data (length on 1 byte + value as string).\<close>

definition obj_long :: "int option decoder" where
  "obj_long d =
     (case obj_len_data 1 d of
        Inl e \<Rightarrow> Inl e
      | Inr (None, d') \<Rightarrow> Inr (None, d')
      | Inr (Some v, d') \<Rightarrow>
          (case py_int v of Inl e \<Rightarrow> Inl e | Inr n \<Rightarrow> Inr (Some n, d')))"

text \<open>\<open>_obj_str\<close>: read a string in data (length on 4 bytes + content).\<close>

definition obj_str :: "pystr option decoder" where
  "obj_str d =
     (case obj_len_data 4 d of
        Inl e \<Rightarrow> Inl e
      | Inr (None, d') \<Rightarrow> Inr (None, d')
      | Inr (Some v, d') \<Rightarrow> Inr (Some v, d'))"

text \<open>\<open>_obj_buffer\<close>: read a buffer in data (length on 4 bytes + data).\<close>

definition obj_buffer :: "pystr option decoder" where
  "obj_buffer d = obj_len_data 4 d"

text \<open>\<open>_obj_ptr\<close>: read a pointer in data (length on 1 byte + value as string).\<close>

definition obj_ptr :: "pystr option decoder" where
  "obj_ptr d =
     (case obj_len_data 1 d of
        Inl e \<Rightarrow> Inl e
      | Inr (None, d') \<Rightarrow> Inr (None, d')
      | Inr (Some v, d') \<Rightarrow> Inr (Some (py ''0x'' @ v), d'))"

text \<open>\<open>_obj_time\<close>: read a time in data (length on 1 byte + value as string).\<close>

definition obj_time :: "int option decoder" where
  "obj_time d =
     (case obj_len_data 1 d of
        Inl e \<Rightarrow> Inl e
      | Inr (None, d') \<Rightarrow> Inr (None, d')
      | Inr (Some v, d') \<Rightarrow>
          (case py_int v of Inl e \<Rightarrow> Inl e | Inr n \<Rightarrow> Inr (Some n, d')))"

subsection \<open>Dictionaries and the decoder table\<close>

text \<open>
  \<open>d[k] = v\<close> on an insertion-ordered dictionary: an existing key keeps its place and
  gets the new value, a new key goes to the end.
\<close>

fun dict_set :: "(pyval \<times> pyval) list \<Rightarrow> pyval \<Rightarrow> pyval \<Rightarrow> (pyval \<times> pyval) list" where
  "dict_set [] k v = [(k, v)]"
| "dict_set ((k', v') # kvs) k v =
     (if k' = k then (k', v) # kvs else (k', v') # dict_set kvs k v)"

text \<open>Lists and dictionaries are unhashable; a tuple is hashable when its items are.\<close>

fun hashable :: "pyval \<Rightarrow> bool" where
  "hashable PNone = True"
| "hashable (PInt n) = True"
| "hashable (PStr s) = True"
| "hashable (PList vs) = False"
| "hashable (PTuple vs) = list_all hashable vs"
| "hashable (PDict kvs) = False"
| "hashable (PWeechatDict kvs) = False"

definition opt_str :: "pystr option \<Rightarrow> pyval" where
  "opt_str v = (case v of None \<Rightarrow> PNone | Some s \<Rightarrow> PStr s)"

definition opt_int :: "int option \<Rightarrow> pyval" where
  "opt_int v = (case v of None \<Rightarrow> PNone | Some n \<Rightarrow> PInt n)"

definition returning :: "('a \<Rightarrow> pyval) \<Rightarrow> 'a decoder \<Rightarrow> pyval decoder" where
  "returning f dec d = (case dec d of Inl e \<Rightarrow> Inl e | Inr (x, d') \<Rightarrow> Inr (f x, d'))"

text \<open>The attribute \<open>self._obj_cb\<close>: a dictionary from type tags to decoders.\<close>

type_synonym table = "pystr \<Rightarrow> pyval decoder option"

text \<open>\<open>self._obj_cb[objtype]()\<close>: the lookup raises \<open>KeyError\<close> on a tag it does not hold.\<close>

definition call :: "table \<Rightarrow> pystr \<Rightarrow> pyval decoder" where
  "call cb objtype d = (case cb objtype of None \<Rightarrow> Inl KeyError | Some dec \<Rightarrow> dec d)"

text \<open>\<open>s.split(sep)\<close> for a one-character separator.\<close>

fun split_on :: "nat \<Rightarrow> pystr \<Rightarrow> pystr list" where
  "split_on sep [] = [[]]"
| "split_on sep (c # cs) =
     (if c = sep then [] # split_on sep cs
      else (case split_on sep cs of w # ws \<Rightarrow> (c # w) # ws | [] \<Rightarrow> [[c]]))"

subsection \<open>Composite decoders\<close>

text \<open>The loop of \<open>_obj_hashtable\<close>, \<open>n\<close> iterations left.\<close>

fun hashtable_items ::
  "table \<Rightarrow> pystr \<Rightarrow> pystr \<Rightarrow> nat \<Rightarrow> (pyval \<times> pyval) list \<Rightarrow> (pyval \<times> pyval) list decoder" where
  "hashtable_items cb type_keys type_values 0 hashtable d = Inr (hashtable, d)"
| "hashtable_items cb type_keys type_values (Suc n) hashtable d =
     (case call cb type_keys d of
        Inl e \<Rightarrow> Inl e
      | Inr (key, d1) \<Rightarrow>
          (case call cb type_values d1 of
             Inl e \<Rightarrow> Inl e
           | Inr (val, d2) \<Rightarrow>
               if hashable key
               then hashtable_items cb type_keys type_values n (dict_set hashtable key val) d2
               else Inl TypeError))"

text \<open>
  \<open>_obj_hashtable\<close>: read a hashtable in data (type for keys + type for values + count +
  items). \<open>range(count)\<close> is empty for a negative count.
\<close>

definition obj_hashtable :: "table \<Rightarrow> pyval decoder" where
  "obj_hashtable cb d =
     (case obj_type d of
        Inl e \<Rightarrow> Inl e
      | Inr (type_keys, d1) \<Rightarrow>
          (case obj_type d1 of
             Inl e \<Rightarrow> Inl e
           | Inr (type_values, d2) \<Rightarrow>
               (case obj_int d2 of
                  Inl e \<Rightarrow> Inl e
                | Inr (count, d3) \<Rightarrow>
                    (case hashtable_items cb type_keys type_values (nat count) [] d3 of
                       Inl e \<Rightarrow> Inl e
                     | Inr (hashtable, d4) \<Rightarrow> Inr (PWeechatDict hashtable, d4)))))"

text \<open>
  The first loop of \<open>_obj_hdata\<close>, over \<open>list_keys\<close>: \<open>items[1]\<close> raises \<open>IndexError\<close>
  when the entry holds no colon.
\<close>

fun hdata_keys ::
  "pystr list \<Rightarrow> pystr list list \<Rightarrow> (pyval \<times> pyval) list
    \<Rightarrow> pyerror + (pystr list list \<times> (pyval \<times> pyval) list)" where
  "hdata_keys [] keys_types dict_keys = Inr (keys_types, dict_keys)"
| "hdata_keys (key # list_keys) keys_types dict_keys =
     (let items = split_on (of_char CHR '':'') key
      in (case items of
            i0 # i1 # rest \<Rightarrow>
              hdata_keys list_keys (keys_types @ [items]) (dict_set dict_keys (PStr i0) (PStr i1))
          | _ \<Rightarrow> Inl IndexError))"

text \<open>The loop over \<open>enumerate(list_path)\<close>: one pointer for each path segment.\<close>

fun hdata_pointers :: "pystr list \<Rightarrow> pyval list \<Rightarrow> pyval list decoder" where
  "hdata_pointers [] pointers d = Inr (pointers, d)"
| "hdata_pointers (seg # list_path) pointers d =
     (case obj_ptr d of
        Inl e \<Rightarrow> Inl e
      | Inr (p, d1) \<Rightarrow> hdata_pointers list_path (pointers @ [opt_str p]) d1)"

text \<open>
  The loop \<open>for key, objtype in keys_types\<close>: unpacking an entry that does not hold
  exactly two strings raises \<open>ValueError\<close>.
\<close>

fun hdata_fields ::
  "table \<Rightarrow> pystr list list \<Rightarrow> (pyval \<times> pyval) list \<Rightarrow> (pyval \<times> pyval) list decoder" where
  "hdata_fields cb [] item d = Inr (item, d)"
| "hdata_fields cb (entry # keys_types) item d =
     (case entry of
        [key, objtype] \<Rightarrow>
          (case call cb objtype d of
             Inl e \<Rightarrow> Inl e
           | Inr (v, d1) \<Rightarrow> hdata_fields cb keys_types (dict_set item (PStr key) v) d1)
      | _ \<Rightarrow> Inl ValueError)"

text \<open>The body of the loop over \<open>range(count)\<close>: one item.\<close>

definition hdata_item :: "table \<Rightarrow> pystr list \<Rightarrow> pystr list list \<Rightarrow> pyval decoder" where
  "hdata_item cb list_path keys_types d =
     (let item = dict_set [] (PStr (py ''__path'')) (PList [])
      in (case hdata_pointers list_path [] d of
            Inl e \<Rightarrow> Inl e
          | Inr (pointers, d1) \<Rightarrow>
              (case hdata_fields cb keys_types item d1 of
                 Inl e \<Rightarrow> Inl e
               | Inr (item1, d2) \<Rightarrow>
                   Inr (PWeechatDict (dict_set item1 (PStr (py ''__path'')) (PList pointers)),
                        d2))))"

fun hdata_items ::
  "table \<Rightarrow> pystr list \<Rightarrow> pystr list list \<Rightarrow> nat \<Rightarrow> pyval list \<Rightarrow> pyval list decoder" where
  "hdata_items cb list_path keys_types 0 items d = Inr (items, d)"
| "hdata_items cb list_path keys_types (Suc n) items d =
     (case hdata_item cb list_path keys_types d of
        Inl e \<Rightarrow> Inl e
      | Inr (item, d1) \<Rightarrow> hdata_items cb list_path keys_types n (items @ [item]) d1)"

text \<open>\<open>x.split(sep) if x else []\<close>: \<open>None\<close> and the empty string are both false.\<close>

definition split_if :: "nat \<Rightarrow> pystr option \<Rightarrow> pystr list" where
  "split_if sep x =
     (case x of None \<Rightarrow> [] | Some s \<Rightarrow> (if s \<noteq> [] then split_on sep s else []))"

text \<open>\<open>_obj_hdata\<close>: read a hdata in data.\<close>

definition obj_hdata :: "table \<Rightarrow> pyval decoder" where
  "obj_hdata cb d =
     (case obj_str d of
        Inl e \<Rightarrow> Inl e
      | Inr (path, d1) \<Rightarrow>
          (case obj_str d1 of
             Inl e \<Rightarrow> Inl e
           | Inr (keys, d2) \<Rightarrow>
               (case obj_int d2 of
                  Inl e \<Rightarrow> Inl e
                | Inr (count, d3) \<Rightarrow>
                    (let list_path = split_if (of_char CHR ''/'') path;
                         list_keys = split_if (of_char CHR '','') keys
                     in (case hdata_keys list_keys [] [] of
                           Inl e \<Rightarrow> Inl e
                         | Inr (keys_types, dict_keys) \<Rightarrow>
                             (case hdata_items cb list_path keys_types (nat count) [] d3 of
                                Inl e \<Rightarrow> Inl e
                              | Inr (items, d4) \<Rightarrow>
                                  Inr (PDict
                                         [(PStr (py ''path''), PList (map PStr list_path)),
                                          (PStr (py ''keys''), PWeechatDict dict_keys),
                                          (PStr (py ''count''), PInt count),
                                          (PStr (py ''items''), PList items)],
                                       d4)))))))"

text \<open>\<open>_obj_info\<close>: read an info in data.\<close>

definition obj_info :: "pyval decoder" where
  "obj_info d =
     (case obj_str d of
        Inl e \<Rightarrow> Inl e
      | Inr (name, d1) \<Rightarrow>
          (case obj_str d1 of
             Inl e \<Rightarrow> Inl e
           | Inr (val, d2) \<Rightarrow> Inr (PTuple [opt_str name, opt_str val], d2)))"

text \<open>The inner loop of \<open>_obj_infolist\<close>, over \<open>range(count_vars)\<close>.\<close>

fun infolist_vars :: "table \<Rightarrow> nat \<Rightarrow> (pyval \<times> pyval) list \<Rightarrow> (pyval \<times> pyval) list decoder" where
  "infolist_vars cb 0 variables d = Inr (variables, d)"
| "infolist_vars cb (Suc n) variables d =
     (case obj_str d of
        Inl e \<Rightarrow> Inl e
      | Inr (var_name, d1) \<Rightarrow>
          (case obj_type d1 of
             Inl e \<Rightarrow> Inl e
           | Inr (var_type, d2) \<Rightarrow>
               (case call cb var_type d2 of
                  Inl e \<Rightarrow> Inl e
                | Inr (var_value, d3) \<Rightarrow>
                    infolist_vars cb n (dict_set variables (opt_str var_name) var_value) d3)))"

fun infolist_items :: "table \<Rightarrow> nat \<Rightarrow> pyval list \<Rightarrow> pyval list decoder" where
  "infolist_items cb 0 items d = Inr (items, d)"
| "infolist_items cb (Suc n) items d =
     (case obj_int d of
        Inl e \<Rightarrow> Inl e
      | Inr (count_vars, d1) \<Rightarrow>
          (case infolist_vars cb (nat count_vars) [] d1 of
             Inl e \<Rightarrow> Inl e
           | Inr (variables, d2) \<Rightarrow>
               infolist_items cb n (items @ [PWeechatDict variables]) d2))"

text \<open>\<open>_obj_infolist\<close>: read an infolist in data.\<close>

definition obj_infolist :: "table \<Rightarrow> pyval decoder" where
  "obj_infolist cb d =
     (case obj_str d of
        Inl e \<Rightarrow> Inl e
      | Inr (name, d1) \<Rightarrow>
          (case obj_int d1 of
             Inl e \<Rightarrow> Inl e
           | Inr (count_items, d2) \<Rightarrow>
               (case infolist_items cb (nat count_items) [] d2 of
                  Inl e \<Rightarrow> Inl e
                | Inr (items, d3) \<Rightarrow>
                    Inr (PDict [(PStr (py ''name''), opt_str name),
                                (PStr (py ''items''), PList items)], d3))))"

fun array_values :: "table \<Rightarrow> pystr \<Rightarrow> nat \<Rightarrow> pyval list \<Rightarrow> pyval list decoder" where
  "array_values cb type_values 0 vals d = Inr (vals, d)"
| "array_values cb type_values (Suc n) vals d =
     (case call cb type_values d of
        Inl e \<Rightarrow> Inl e
      | Inr (v, d1) \<Rightarrow> array_values cb type_values n (vals @ [v]) d1)"

text \<open>\<open>_obj_array\<close>: read an array of values in data.\<close>

definition obj_array :: "table \<Rightarrow> pyval decoder" where
  "obj_array cb d =
     (case obj_type d of
        Inl e \<Rightarrow> Inl e
      | Inr (type_values, d1) \<Rightarrow>
          (case obj_int d1 of
             Inl e \<Rightarrow> Inl e
           | Inr (count_values, d2) \<Rightarrow>
               (case array_values cb type_values (nat count_values) [] d2 of
                  Inl e \<Rightarrow> Inl e
                | Inr (vals, d3) \<Rightarrow> Inr (PList vals, d3))))"

text \<open>
  The table built by \<open>Protocol.__init__\<close>. Its composite entries call back into the
  table, so the model unfolds it to a nesting depth: \<open>obj_cb n\<close> decodes values nested
  fewer than \<open>n\<close> levels deep and answers \<open>RecursionError\<close> below that.
\<close>

definition table_over :: "table \<Rightarrow> table" where
  "table_over inner =
     map_of
       [(py ''chr'', returning PInt obj_char),
        (py ''int'', returning PInt obj_int),
        (py ''lon'', returning opt_int obj_long),
        (py ''str'', returning opt_str obj_str),
        (py ''buf'', returning opt_str obj_buffer),
        (py ''ptr'', returning opt_str obj_ptr),
        (py ''tim'', returning opt_int obj_time),
        (py ''htb'', obj_hashtable inner),
        (py ''hda'', obj_hdata inner),
        (py ''inf'', obj_info),
        (py ''inl'', obj_infolist inner),
        (py ''arr'', obj_array inner)]"

primrec obj_cb :: "nat \<Rightarrow> table" where
  "obj_cb 0 = (\<lambda>objtype. map_option (\<lambda>dec d. Inl RecursionError) (table_over Map.empty objtype))"
| "obj_cb (Suc n) = table_over (obj_cb n)"

subsection \<open>The message assembler\<close>

record WeechatObject =
  objtype :: pystr
  objvalue :: pyval
  separator :: pystr

record WeechatMessage =
  size_msg :: int
  size_uncompressed :: int
  compression :: int
  uncompressed :: pydata
  msgid :: pystr
  objects :: "WeechatObject list"

text \<open>
  \<open>'%s' % b\<close> for a \<open>bytes\<close> object \<open>b\<close> is \<open>repr(b)\<close> in Python 3: the letter
  \<open>b\<close>, a quote, the bytes with the non-printable ones escaped, a quote.
\<close>

definition hexdigit :: "nat \<Rightarrow> nat" where
  "hexdigit n = (if n < 10 then 48 + n else 87 + n)"

definition repr_byte :: "nat \<Rightarrow> nat \<Rightarrow> pystr" where
  "repr_byte quote c =
     (if c = quote \<or> c = 92 then [92, c]
      else if c = 9 then [92, 116]
      else if c = 10 then [92, 110]
      else if c = 13 then [92, 114]
      else if c < 32 \<or> 127 \<le> c then [92, 120, hexdigit (c div 16), hexdigit (c mod 16)]
      else [c])"

definition bytes_repr :: "byte list \<Rightarrow> pystr" where
  "bytes_repr bs =
     (let cs = map unat bs;
          quote = (if 39 \<in> set cs \<and> 34 \<notin> set cs then 34 else 39)
      in [98, quote] @ concat (map (repr_byte quote) cs) @ [quote])"

text \<open>
  The \<open>while len(self.data) > 0\<close> loop of \<open>decode\<close>. Nothing in the loop itself makes
  the buffer shorter (that is up to the decoders of the table), so the model does not
  assume that it ends: \<open>None\<close> is the loop running forever.
\<close>

partial_function (option) decode_objects ::
  "table \<Rightarrow> pystr \<Rightarrow> pydata \<Rightarrow> WeechatObject list
    \<Rightarrow> (pyerror + WeechatObject list \<times> pydata) option" where
  "decode_objects cb sep d objs =
     (if py_len d > 0 then
        (case obj_type d of
           Inl e \<Rightarrow> Some (Inl e)
         | Inr (t, d1) \<Rightarrow>
             (case call cb t d1 of
                Inl e \<Rightarrow> Some (Inl e)
              | Inr (v, d2) \<Rightarrow>
                  decode_objects cb sep d2
                    (objs @ [\<lparr>objtype = t, objvalue = v, separator = sep\<rparr>])))
      else Some (Inr (objs, d)))"

text \<open>
  The envelope part of \<open>decode\<close>, up to \<open>self.data = self.data[5:]\<close>. It yields
  \<open>compression\<close> (here \<open>flag\<close>), \<open>size_uncompressed\<close>, \<open>uncompressed\<close> and the new
  \<open>self.data\<close>. \<open>zlib.decompress\<close> is a parameter.
\<close>

definition envelope ::
  "(byte list \<Rightarrow> pyerror + byte list) \<Rightarrow> byte list \<Rightarrow> pyerror + (int \<times> int \<times> pydata \<times> pydata)" where
  "envelope zlib_decompress data =
     (case unpack_b (Bytes (take 1 (drop 4 data))) of
        Inl e \<Rightarrow> Inl e
      | Inr flag \<Rightarrow>
          if flag \<noteq> 0 then
            (case zlib_decompress (drop 5 data) of
               Inl e \<Rightarrow> Inl e
             | Inr inflated \<Rightarrow>
                 (let size_unc = int (length inflated) + 5
                  in (case pack_i size_unc of
                        Inl e \<Rightarrow> Inl e
                      | Inr packed \<Rightarrow>
                          (let unc =
                                 Str (bytes_repr packed @ bytes_repr [0] @ bytes_repr inflated)
                           in Inr (flag, size_unc, unc, data_from unc 5)))))
          else Inr (flag, int (length data), Bytes data, data_from (Bytes data) 5))"

text \<open>\<open>decode\<close>: decode binary data and return list of objects.\<close>

definition decode ::
  "(byte list \<Rightarrow> pyerror + byte list) \<Rightarrow> table \<Rightarrow> byte list \<Rightarrow> pystr
    \<Rightarrow> (pyerror + WeechatMessage) option" where
  "decode zlib_decompress cb data sep =
     (case envelope zlib_decompress data of
        Inl e \<Rightarrow> Some (Inl e)
      | Inr (flag, size_unc, unc, d) \<Rightarrow>
          (case obj_str d of
             Inl e \<Rightarrow> Some (Inl e)
           | Inr (read_id, d1) \<Rightarrow>
               (let ident = (case read_id of None \<Rightarrow> [] | Some s \<Rightarrow> s)
                in (case decode_objects cb sep d1 [] of
                      None \<Rightarrow> None
                    | Some (Inl e) \<Rightarrow> Some (Inl e)
                    | Some (Inr (objs, d2)) \<Rightarrow>
                        Some (Inr \<lparr>size_msg = int (length data),
                                   size_uncompressed = size_unc,
                                   compression = flag,
                                   uncompressed = unc,
                                   msgid = ident,
                                   objects = objs\<rparr>)))))"

text \<open>A decompressor that accepts nothing, for frames that are not compressed.\<close>

definition no_zlib :: "byte list \<Rightarrow> pyerror + byte list" where
  "no_zlib bs = Inl ZlibError"

subsection \<open>The frame reader\<close>

text \<open>
  The socket is the sequence of the outcomes of its \<open>recv(1024)\<close> calls: bytes, or a
  \<open>socket.error\<close> with its \<open>errno\<close>. A socket that keeps delivering bytes (or empty
  reads after the peer has closed) keeps the loop running: \<open>None\<close>.
\<close>

datatype recv_result = Data "byte list" | Error nat

definition EWOULDBLOCK :: nat where
  "EWOULDBLOCK = 11"

partial_function (option) recv_loop ::
  "(nat \<Rightarrow> recv_result) \<Rightarrow> nat \<Rightarrow> byte list \<Rightarrow> (pyerror + byte list) option" where
  "recv_loop sock i buffer =
     (case sock i of
        Data bs \<Rightarrow> recv_loop sock (Suc i) (buffer @ bs)
      | Error e \<Rightarrow> if e \<noteq> EWOULDBLOCK then Some (Inl (SocketError e)) else Some (Inr buffer))"

text \<open>\<open>_receive\<close>; \<open>ready\<close> is \<open>sock in read_ready\<close> after \<open>select\<close>.\<close>

definition receive :: "bool \<Rightarrow> (nat \<Rightarrow> recv_result) \<Rightarrow> (pyerror + byte list) option" where
  "receive ready sock =
     (case (if ready then recv_loop sock 0 [] else Some (Inr [])) of
        None \<Rightarrow> None
      | Some (Inl e) \<Rightarrow> Some (Inl e)
      | Some (Inr buffer) \<Rightarrow>
          (case unpack_i (Bytes (slice_to buffer 4)) of
             Inl e \<Rightarrow> Some (Inl e)
           | Inr len \<Rightarrow> Some (Inr (slice_to buffer len))))"

subsection \<open>Reference decoders\<close>

text \<open>
  The composite decoders as the specification words them, to compare the loops of the
  source with. A hashtable is \<open>count\<close> decode cycles, each one key and then one value,
  the pairs kept in the order read.
\<close>

fun key_value_cycles ::
  "pyval decoder \<Rightarrow> pyval decoder \<Rightarrow> nat \<Rightarrow> (pyval \<times> pyval) list decoder" where
  "key_value_cycles kd vd 0 d = Inr ([], d)"
| "key_value_cycles kd vd (Suc n) d =
     (case kd d of
        Inl e \<Rightarrow> Inl e
      | Inr (k, d1) \<Rightarrow>
          (case vd d1 of
             Inl e \<Rightarrow> Inl e
           | Inr (v, d2) \<Rightarrow>
               (case key_value_cycles kd vd n d2 of
                  Inl e \<Rightarrow> Inl e
                | Inr (kvs, d3) \<Rightarrow> Inr ((k, v) # kvs, d3))))"

text \<open>The ordered map that results from inserting the pairs one after the other.\<close>

definition insert_all ::
  "(pyval \<times> pyval) list \<Rightarrow> (pyval \<times> pyval) list \<Rightarrow> (pyval \<times> pyval) list" where
  "insert_all kvs h = fold (\<lambda>(k, v) h'. dict_set h' k v) kvs h"

text \<open>Running a list of decoders one after the other, keeping their results in order.\<close>

fun decode_seq :: "pyval decoder list \<Rightarrow> pyval list decoder" where
  "decode_seq [] d = Inr ([], d)"
| "decode_seq (dec # decs) d =
     (case dec d of
        Inl e \<Rightarrow> Inl e
      | Inr (v, d1) \<Rightarrow>
          (case decode_seq decs d1 of
             Inl e \<Rightarrow> Inl e
           | Inr (vs, d2) \<Rightarrow> Inr (v # vs, d2)))"

text \<open>
  An hdata item: one pointer for each path segment, in path order, then each declared
  field in declared key order with the decoder of its declared type tag; the item is the
  pointer list under \<open>__path\<close> followed by the fields.
\<close>

definition hdata_item_ref :: "table \<Rightarrow> pystr list \<Rightarrow> (pystr \<times> pystr) list \<Rightarrow> pyval decoder" where
  "hdata_item_ref cb list_path declared d =
     (case decode_seq (map (\<lambda>seg. returning opt_str obj_ptr) list_path) d of
        Inl e \<Rightarrow> Inl e
      | Inr (pointers, d1) \<Rightarrow>
          (case decode_seq (map (\<lambda>(key, t). call cb t) declared) d1 of
             Inl e \<Rightarrow> Inl e
           | Inr (vals, d2) \<Rightarrow>
               Inr (PWeechatDict
                      ((PStr (py ''__path''), PList pointers)
                       # zip (map (\<lambda>(key, t). PStr key) declared) vals),
                    d2)))"

text \<open>
  One input and output of \<open>zlib.decompress\<close>: the zlib stream of the payload
  \<open>FF FF FF FF 69 6E 74 00 00 00 2A\<close> (a null message id, then the integer 42).
\<close>

definition zlib_sample :: "byte list \<Rightarrow> pyerror + byte list" where
  "zlib_sample bs =
     (if bs = [120, 156, 251, 255, 255, 255, 255, 204, 188, 18, 6, 6, 6, 45, 0, 45, 198, 5, 114]
      then Inr [255, 255, 255, 255, 105, 110, 116, 0, 0, 0, 42]
      else Inl ZlibError)"

section \<open>Properties\<close>

lemmas prim_defs =
  obj_int_def obj_char_def obj_len_data_def len_data_value_def obj_type_def
  obj_str_def obj_buffer_def obj_ptr_def obj_time_def obj_long_def
  py_len_def data_to_def data_from_def slice_to_def slice_from_def
  unpack_b_def unpack_B_def unpack_i_def join_chr_def

lemma py_int_empty: "py_int [] = Inl ValueError"
  by (simp add: py_int_def strip_def)

lemma obj_int_bytes: "obj_int (Bytes (a # b # c # e # r)) = Inr (be32 a b c e, Bytes r)"
  by (simp add: obj_int_def py_len_def data_to_def data_from_def slice_to_def slice_from_def
        unpack_i_def)

lemma len_data_value_bytes:
  "len_data_value len (Bytes r) =
     (if len < 0 then Inr (None, Bytes r)
      else Inr (Some (map unat (take (nat len) r)), Bytes (drop (nat len) r)))"
  by (simp add: len_data_value_def join_chr_def data_to_def data_from_def slice_to_def
        slice_from_def)

lemma obj_len_data_4:
  "obj_len_data 4 (Bytes (a # b # c # e # r)) = len_data_value (be32 a b c e) (Bytes r)"
  by (simp add: obj_len_data_def py_len_def obj_int_bytes)

lemma obj_len_data_1:
  "obj_len_data (Suc 0) (Bytes (n # r)) = len_data_value (uint n) (Bytes r)"
  by (simp add: obj_len_data_def py_len_def unpack_B_def data_to_def data_from_def slice_to_def
        slice_from_def)

lemma obj_len_data_short:
  "py_len d < length_size \<Longrightarrow> obj_len_data length_size d = Inr (None, Str [])"
  by (simp add: obj_len_data_def)

lemma obj_type_short: "py_len d < 3 \<Longrightarrow> obj_type d = Inr ([], Str [])"
  by (simp add: obj_type_def)

lemma be32_minus_one: "be32 255 255 255 255 = - 1"
  by (simp add: be32_def)

lemma be32_zero: "be32 0 0 0 0 = 0"
  by (simp add: be32_def)

subsection \<open>Underflow in the primitive decoders\<close>

text \<open>
  Claim C4, as stated, fails: with too few bytes left the integer and character decoders
  return 0, a string whose length prefix is cut decodes to null, and a string, a pointer
  or a long whose payload is cut decodes what is left of it; none of these raises.
\<close>

theorem underflow_is_not_an_error:
  "obj_int (Bytes [1, 2, 3]) = Inr (0, Str [])
   \<and> obj_char (Bytes []) = Inr (0, Bytes [])
   \<and> obj_len_data 4 (Bytes [0, 0, 0, 5, 104, 105]) = Inr (Some [104, 105], Bytes [])
   \<and> obj_str (Bytes [0, 0]) = Inr (None, Str [])
   \<and> obj_str (Bytes [0, 0, 0, 5, 104, 105]) = Inr (Some [104, 105], Bytes [])
   \<and> obj_ptr (Bytes [2, 49]) = Inr (Some (py ''0x1''), Bytes [])
   \<and> obj_long (Bytes [2, 52]) = Inr (Some 4, Bytes [])"
  by (simp add: obj_int_def obj_char_def py_len_def obj_len_data_4 obj_len_data_1
        obj_len_data_short len_data_value_bytes be32_def obj_str_def obj_ptr_def obj_long_def
        py_def py_int_def strip_def is_space_def)

text \<open>
  Claim C4, amended: the primitive decoders do not, in general, treat insufficient
  remaining bytes as an error. With fewer than 4 bytes left the int decoder returns 0
  and empties the buffer; with no byte left the char decoder returns 0 and leaves the
  buffer as it is. A length-prefixed field (string, buffer, long, pointer, time) whose
  length prefix is incomplete decodes to null and empties the buffer. A string, buffer
  or pointer whose payload is shorter than its declared length decodes to the text of
  the bytes that are left (for a pointer, \<open>0x\<close> followed by that text). Only a long
  or a time with a cut payload can fail, and only when \<open>int\<close> rejects the text that is
  left: it then raises \<open>ValueError\<close>, as it always does when no payload byte is left;
  otherwise the decoder returns the integer that the remaining text denotes. The tag
  reader returns the empty tag when fewer than 3 bytes are left.
\<close>

theorem underflow_defaults:
  "(py_len d < 4 \<longrightarrow>
        obj_int d = Inr (0, Str [])
        \<and> obj_str d = Inr (None, Str []) \<and> obj_buffer d = Inr (None, Str []))
   \<and> (py_len d < 1 \<longrightarrow>
        obj_char d = Inr (0, d)
        \<and> obj_long d = Inr (None, Str []) \<and> obj_ptr d = Inr (None, Str [])
        \<and> obj_time d = Inr (None, Str []))
   \<and> (py_len d < 3 \<longrightarrow> obj_type d = Inr ([], Str []))
   \<and> (py_len d < length_size \<longrightarrow> obj_len_data length_size d = Inr (None, Str []))
   \<and> (int (length p) < be32 a b c e \<longrightarrow>
        obj_len_data 4 (Bytes (a # b # c # e # p)) = Inr (Some (map unat p), Bytes [])
        \<and> obj_str (Bytes (a # b # c # e # p)) = Inr (Some (map unat p), Bytes [])
        \<and> obj_buffer (Bytes (a # b # c # e # p)) = Inr (Some (map unat p), Bytes []))
   \<and> (length p < unat n \<longrightarrow>
        obj_len_data 1 (Bytes (n # p)) = Inr (Some (map unat p), Bytes [])
        \<and> obj_ptr (Bytes (n # p)) = Inr (Some (py ''0x'' @ map unat p), Bytes [])
        \<and> obj_long (Bytes (n # p))
            = (case py_int (map unat p) of
                 Inl x \<Rightarrow> Inl x
               | Inr v \<Rightarrow> Inr (Some v, Bytes []))
        \<and> obj_time (Bytes (n # p))
            = (case py_int (map unat p) of
                 Inl x \<Rightarrow> Inl x
               | Inr v \<Rightarrow> Inr (Some v, Bytes [])))
   \<and> obj_long (Bytes [n]) = Inl ValueError
   \<and> obj_time (Bytes [n]) = Inl ValueError
   \<and> (py_int s = Inl x \<longrightarrow> x = ValueError)"
proof (intro conjI impI)
  assume s: "py_len d < 4"
  then show "obj_int d = Inr (0, Str [])"
    by (simp add: obj_int_def)
  from s show "obj_str d = Inr (None, Str [])"
    by (simp add: obj_str_def obj_len_data_short)
  from s show "obj_buffer d = Inr (None, Str [])"
    by (simp add: obj_buffer_def obj_len_data_short)
next
  assume s: "py_len d < 1"
  then show "obj_char d = Inr (0, d)"
    by (simp add: obj_char_def)
  from s have l: "obj_len_data 1 d = Inr (None, Str [])"
    by (rule obj_len_data_short)
  from l show "obj_long d = Inr (None, Str [])"
    by (simp add: obj_long_def)
  from l show "obj_ptr d = Inr (None, Str [])"
    by (simp add: obj_ptr_def)
  from l show "obj_time d = Inr (None, Str [])"
    by (simp add: obj_time_def)
next
  assume "py_len d < 3"
  then show "obj_type d = Inr ([], Str [])"
    by (rule obj_type_short)
next
  assume "py_len d < length_size"
  then show "obj_len_data length_size d = Inr (None, Str [])"
    by (rule obj_len_data_short)
next
  assume "int (length p) < be32 a b c e"
  then show l: "obj_len_data 4 (Bytes (a # b # c # e # p)) = Inr (Some (map unat p), Bytes [])"
    by (simp add: obj_len_data_4 len_data_value_bytes)
  from l show "obj_str (Bytes (a # b # c # e # p)) = Inr (Some (map unat p), Bytes [])"
    by (simp add: obj_str_def)
  from l show "obj_buffer (Bytes (a # b # c # e # p)) = Inr (Some (map unat p), Bytes [])"
    by (simp add: obj_buffer_def)
next
  assume "length p < unat n"
  then show l: "obj_len_data 1 (Bytes (n # p)) = Inr (Some (map unat p), Bytes [])"
    by (simp add: obj_len_data_1 len_data_value_bytes)
  from l show "obj_ptr (Bytes (n # p)) = Inr (Some (py ''0x'' @ map unat p), Bytes [])"
    by (simp add: obj_ptr_def)
  from l show "obj_long (Bytes (n # p))
            = (case py_int (map unat p) of
                 Inl x \<Rightarrow> Inl x
               | Inr v \<Rightarrow> Inr (Some v, Bytes []))"
    by (simp add: obj_long_def)
  from l show "obj_time (Bytes (n # p))
            = (case py_int (map unat p) of
                 Inl x \<Rightarrow> Inl x
               | Inr v \<Rightarrow> Inr (Some v, Bytes []))"
    by (simp add: obj_time_def)
next
  show "obj_long (Bytes [n]) = Inl ValueError"
    by (simp add: obj_long_def obj_len_data_1 len_data_value_bytes py_int_empty)
  show "obj_time (Bytes [n]) = Inl ValueError"
    by (simp add: obj_time_def obj_len_data_1 len_data_value_bytes py_int_empty)
next
  assume "py_int s = Inl x"
  then show "x = ValueError"
    by (auto simp add: py_int_def split: list.splits option.splits if_splits)
qed

theorem underflow_defaults_witness:
  "obj_int (Bytes []) = Inr (0, Str [])
   \<and> obj_char (Bytes []) = Inr (0, Bytes [])
   \<and> obj_str (Bytes []) = Inr (None, Str [])
   \<and> obj_time (Bytes []) = Inr (None, Str [])
   \<and> obj_type (Bytes []) = Inr ([], Str [])
   \<and> obj_len_data 4 (Bytes []) = Inr (None, Str [])
   \<and> obj_buffer (Bytes [0, 0, 0, 3, 52]) = Inr (Some [52], Bytes [])
   \<and> obj_ptr (Bytes [2, 52]) = Inr (Some (py ''0x4''), Bytes [])
   \<and> obj_long (Bytes [2, 52]) = Inr (Some 4, Bytes [])
   \<and> obj_time (Bytes [2, 120]) = Inl ValueError
   \<and> obj_long (Bytes [2]) = Inl ValueError"
  using underflow_defaults [of "Bytes []" 4 "[52]" 0 0 0 3 2 "[]" ValueError]
    underflow_defaults [of "Bytes []" 4 "[120]" 0 0 0 3 2 "[]" ValueError]
  by (simp add: py_len_def be32_def py_def py_int_def strip_def is_space_def)

subsection \<open>Null and empty\<close>

text \<open>
  Claim C5, as stated, fails for the time and pointer fields: a time of declared length 0
  raises \<open>ValueError\<close>, and the length byte \<open>0xFF\<close> of a pointer is the length 255,
  not the null sentinel.
\<close>

theorem time_and_pointer_null_empty_counterexample:
  "obj_time (Bytes [0]) = Inl ValueError
   \<and> obj_ptr (Bytes [255]) = Inr (Some (py ''0x''), Bytes [])"
  by (simp add: obj_time_def obj_ptr_def obj_len_data_1 len_data_value_bytes py_int_empty)

text \<open>
  Claim C5, amended: for a string and for a buffer field a declared length of -1 decodes
  to null and a declared length of 0 to the empty string, two different results. A
  pointer or time field has an unsigned length byte and never decodes to null once that
  byte is there; a pointer of declared length 0 decodes to the text \<open>0x\<close>, a time of
  declared length 0 raises \<open>ValueError\<close>.
\<close>

theorem null_and_empty:
  "obj_str (Bytes (255 # 255 # 255 # 255 # rest)) = Inr (None, Bytes rest)
   \<and> obj_str (Bytes (0 # 0 # 0 # 0 # rest)) = Inr (Some [], Bytes rest)
   \<and> obj_buffer (Bytes (255 # 255 # 255 # 255 # rest)) = Inr (None, Bytes rest)
   \<and> obj_buffer (Bytes (0 # 0 # 0 # 0 # rest)) = Inr (Some [], Bytes rest)
   \<and> (None :: pystr option) \<noteq> Some []
   \<and> obj_ptr (Bytes (0 # rest)) = Inr (Some (py ''0x''), Bytes rest)
   \<and> obj_time (Bytes (0 # rest)) = Inl ValueError
   \<and> obj_ptr (Bytes (n # rest)) \<noteq> Inr (None, d')
   \<and> obj_time (Bytes (n # rest)) \<noteq> Inr (None, d')"
proof (intro conjI)
  show "obj_time (Bytes (n # rest)) \<noteq> Inr (None, d')"
    by (simp add: obj_time_def obj_len_data_1 len_data_value_bytes split: sum.splits)
qed (simp_all add: obj_str_def obj_buffer_def obj_ptr_def obj_time_def obj_len_data_4
       obj_len_data_1 len_data_value_bytes be32_minus_one be32_zero py_int_empty)

subsection \<open>Text is decoded byte by byte\<close>

lemma utf8_length:
  "utf8 bs = Some cs \<Longrightarrow>
     length cs \<le> length bs \<and> (length cs = length bs \<longrightarrow> (\<forall>b\<in>set bs. b < 128))"
proof (induction bs arbitrary: cs rule: length_induct)
  case (1 bs)
  have IH: "\<And>ys zs. length ys < length bs \<Longrightarrow> utf8 ys = Some zs \<Longrightarrow>
      length zs \<le> length ys \<and> (length zs = length ys \<longrightarrow> (\<forall>b\<in>set ys. b < 128))"
    using "1.IH" by blast
  show ?case
  proof (cases bs)
    case Nil
    with "1.prems" show ?thesis by simp
  next
    case (Cons b r)
    show ?thesis
    proof (cases "b < 128")
      case True
      with "1.prems" Cons obtain zs where z: "utf8 r = Some zs" "cs = b # zs"
        by auto
      from IH [of r zs] z Cons True show ?thesis by auto
    next
      case False
      with "1.prems" Cons obtain r' zs c where z: "utf8 r' = Some zs" "cs = c # zs"
         "length r' < length r"
        by (auto split: if_splits list.splits)
      from IH [of r' zs] z Cons have "length zs \<le> length r'" by simp
      with z Cons show ?thesis by simp
    qed
  qed
qed

lemma utf8_ascii: "\<forall>b\<in>set bs. b < 128 \<Longrightarrow> utf8 bs = Some bs"
  by (induction bs) auto

lemma utf8_iff: "utf8 bs = Some bs \<longleftrightarrow> (\<forall>b\<in>set bs. b < 128)"
  using utf8_length [of bs bs] utf8_ascii [of bs] by auto

lemma bytes_decode_iff:
  "bytes_decode p = Inr (map unat p) \<longleftrightarrow> (\<forall>b\<in>set p. b < 128)"
proof -
  have "(\<forall>b\<in>set (map unat p). b < 128) \<longleftrightarrow> (\<forall>b\<in>set p. b < 128)"
    by (auto simp: word_less_nat_alt)
  then show ?thesis
    unfolding bytes_decode_def using utf8_iff [of "map unat p"]
    by (auto split: option.splits)
qed

text \<open>
  Claim C9: a string or buffer field of declared length \<open>L > 0\<close> followed by its \<open>L\<close>
  payload bytes decodes to the text whose code points are those bytes, one code point
  for each byte (\<open>chr(b)\<close>); that text is the UTF-8 decoding of the payload exactly
  when every payload byte is below \<open>0x80\<close>.
\<close>

theorem text_is_one_code_point_per_byte:
  assumes "0 < be32 a b c e" and "int (length payload) = be32 a b c e"
  shows "obj_str (Bytes (a # b # c # e # payload @ rest)) = Inr (Some (map unat payload), Bytes rest)
    \<and> obj_buffer (Bytes (a # b # c # e # payload @ rest)) = Inr (Some (map unat payload), Bytes rest)
    \<and> length (map unat payload) = nat (be32 a b c e)
    \<and> (bytes_decode payload = Inr (map unat payload) \<longleftrightarrow> (\<forall>x\<in>set payload. x < 128))"
proof -
  from assms have n: "nat (be32 a b c e) = length payload" by simp
  have "len_data_value (be32 a b c e) (Bytes (payload @ rest))
      = Inr (Some (map unat payload), Bytes rest)"
    using assms(1) by (simp add: len_data_value_bytes n)
  then show ?thesis
    by (simp add: obj_str_def obj_buffer_def obj_len_data_4 n bytes_decode_iff)
qed

theorem text_is_one_code_point_per_byte_witness:
  "obj_str (Bytes [0, 0, 0, 2, 195, 169, 7]) = Inr (Some [195, 169], Bytes [7])
   \<and> obj_buffer (Bytes [0, 0, 0, 2, 195, 169, 7]) = Inr (Some [195, 169], Bytes [7])
   \<and> bytes_decode [195, 169] \<noteq> Inr [195, 169]"
  using text_is_one_code_point_per_byte [of 0 0 0 2 "[195, 169]" "[7]"]
  by (simp add: be32_def)

subsection \<open>The one-byte length prefix\<close>

text \<open>
  Claim C10, as stated, fails: a long or a time of declared length 0 is no
  present-but-empty result, \<open>int('')\<close> raises \<open>ValueError\<close>.
\<close>

theorem empty_long_and_time_raise:
  "obj_long (Bytes [0]) = Inl ValueError \<and> obj_time (Bytes [0, 49]) = Inl ValueError"
  by (simp add: obj_long_def obj_time_def obj_len_data_1 len_data_value_bytes py_int_empty)

text \<open>
  Claim C10, amended: the length byte of a long, pointer or time field is read unsigned,
  a value in \<open>[0, 255]\<close>, so no length byte is the null sentinel. When the declared
  number of bytes follows, the pointer decoder returns \<open>0x\<close> followed by the payload
  text, and the long and time decoders return \<open>int\<close> of the payload text or raise its
  \<open>ValueError\<close>; none of them returns null. A declared length of 0 yields the text
  \<open>0x\<close> for a pointer and raises \<open>ValueError\<close> for a long and for a time.
\<close>

theorem one_byte_length_is_unsigned:
  "unpack_B (Bytes [n]) = Inr (uint n) \<and> 0 \<le> uint n \<and> uint n \<le> 255
   \<and> (unat n \<le> length p \<longrightarrow>
        obj_ptr (Bytes (n # p))
          = Inr (Some (py ''0x'' @ map unat (take (unat n) p)), Bytes (drop (unat n) p))
        \<and> obj_long (Bytes (n # p))
          = (case py_int (map unat (take (unat n) p)) of
               Inl x \<Rightarrow> Inl x
             | Inr v \<Rightarrow> Inr (Some v, Bytes (drop (unat n) p)))
        \<and> obj_time (Bytes (n # p))
          = (case py_int (map unat (take (unat n) p)) of
               Inl x \<Rightarrow> Inl x
             | Inr v \<Rightarrow> Inr (Some v, Bytes (drop (unat n) p)))
        \<and> obj_ptr (Bytes (n # p)) \<noteq> Inr (None, d')
        \<and> obj_long (Bytes (n # p)) \<noteq> Inr (None, d')
        \<and> obj_time (Bytes (n # p)) \<noteq> Inr (None, d'))
   \<and> obj_ptr (Bytes (0 # p)) = Inr (Some (py ''0x''), Bytes p)
   \<and> obj_long (Bytes (0 # p)) = Inl ValueError
   \<and> obj_time (Bytes (0 # p)) = Inl ValueError"
proof -
  have u: "uint n \<le> 255"
    using uint_bounded [of n] by simp
  have v: "len_data_value (uint n) (Bytes p)
      = Inr (Some (map unat (take (unat n) p)), Bytes (drop (unat n) p))"
    by (simp add: len_data_value_bytes)
  have w: "len_data_value 0 (Bytes p) = Inr (Some [], Bytes p)"
    by (simp add: len_data_value_bytes)
  show ?thesis
    by (simp add: unpack_B_def u obj_ptr_def obj_long_def obj_time_def obj_len_data_1 v w
          py_int_empty split: sum.splits)
qed

theorem one_byte_length_is_unsigned_witness:
  "obj_ptr (Bytes [2, 49, 102, 9]) = Inr (Some (py ''0x1f''), Bytes [9])
   \<and> obj_long (Bytes [2, 52, 50, 9]) = Inr (Some 42, Bytes [9])
   \<and> obj_time (Bytes [2, 52, 50, 9]) = Inr (Some 42, Bytes [9])"
  using one_byte_length_is_unsigned [of 2 "[49, 102, 9]"]
        one_byte_length_is_unsigned [of 2 "[52, 50, 9]"]
  by (simp add: py_def py_int_def strip_def is_space_def)

subsection \<open>The decode loop\<close>

lemma decode_objects_done:
  "py_len d = 0 \<Longrightarrow> decode_objects cb sep d objs = Some (Inr (objs, d))"
  by (subst decode_objects.simps) simp

lemma decode_objects_step:
  "0 < py_len d \<Longrightarrow>
   decode_objects cb sep d objs =
     (case obj_type d of
        Inl e \<Rightarrow> Some (Inl e)
      | Inr (t, d1) \<Rightarrow>
          (case call cb t d1 of
             Inl e \<Rightarrow> Some (Inl e)
           | Inr (v, d2) \<Rightarrow>
               decode_objects cb sep d2
                 (objs @ [\<lparr>objtype = t, objvalue = v, separator = sep\<rparr>])))"
  by (subst decode_objects.simps) simp

lemma obj_type_bytes:
  "obj_type (Bytes (a # b # c # r)) =
     (case bytes_decode [a, b, c] of Inl e \<Rightarrow> Inl e | Inr t \<Rightarrow> Inr (t, Bytes r))"
  by (simp add: obj_type_def py_len_def slice_to_def slice_from_def split: sum.splits)

lemma table_over_empty_tag: "table_over inner [] = None"
  by (simp add: table_over_def py_def)

lemma obj_cb_empty_tag: "obj_cb n [] = None"
  by (cases n) (simp_all add: table_over_empty_tag)

lemma short_tail_raises:
  assumes "0 < py_len d" and "py_len d < 3" and "cb [] = None"
  shows "decode_objects cb sep d objs = Some (Inl KeyError)"
  using assms by (simp add: decode_objects_step obj_type_short call_def)

lemma envelope_plain:
  "envelope zd (a # b # c # e # 0 # r) =
     Inr (0, int (length (a # b # c # e # 0 # r)), Bytes (a # b # c # e # 0 # r), Bytes r)"
  by (simp add: envelope_def unpack_b_def data_from_def slice_from_def)

lemma obj_str_null: "obj_str (Bytes (255 # 255 # 255 # 255 # r)) = Inr (None, Bytes r)"
  by (simp add: obj_str_def obj_len_data_4 len_data_value_bytes be32_minus_one)

lemma tag_int: "bytes_decode [105, 110, 116] = Inr (py ''int'')"
  by (simp add: bytes_decode_def py_def)

lemma call_int:
  "call (table_over inner) (py ''int'') (Bytes (a # b # c # e # r))
     = Inr (PInt (be32 a b c e), Bytes r)"
  by (simp add: call_def table_over_def py_def returning_def obj_int_bytes)

text \<open>
  Claim C6, as stated, fails: the 13 bytes of the claim hold no type tag, so the loop reads
  \<open>00 00 00\<close> as the tag of the first object and the table lookup raises \<open>KeyError\<close>.
\<close>

theorem untagged_frame_raises:
  "decode no_zlib (obj_cb 1) [0, 0, 0, 14, 0, 255, 255, 255, 255, 0, 0, 0, 42] [10]
     = Some (Inl KeyError)"
  by (simp add: decode_def envelope_plain obj_str_null decode_objects_step py_len_def
        obj_type_bytes bytes_decode_def call_def table_over_def py_def)

text \<open>
  Claim C6, amended: decoding the frame \<open>00 00 00 10 00 FF FF FF FF 69 6E 74 00 00 00 2A\<close>
  (declared length 16, compression flag 0, null message id, the tag \<open>int\<close>, the value
  42) returns a message whose id is the empty string and whose object sequence is
  exactly \<open>[("int", 42)]\<close>.
\<close>

theorem tagged_int_frame_decodes:
  "decode zd (obj_cb (Suc n))
     [0, 0, 0, 16, 0, 255, 255, 255, 255, 105, 110, 116, 0, 0, 0, 42] sep
   = Some (Inr \<lparr>size_msg = 16, size_uncompressed = 16, compression = 0,
        uncompressed = Bytes [0, 0, 0, 16, 0, 255, 255, 255, 255, 105, 110, 116, 0, 0, 0, 42],
        msgid = [],
        objects = [\<lparr>objtype = py ''int'', objvalue = PInt 42, separator = sep\<rparr>]\<rparr>)"
  by (simp add: decode_def envelope_plain obj_str_null decode_objects_step decode_objects_done
        py_len_def obj_type_bytes tag_int call_int be32_def)

text \<open>
  Claim C3 on the code: with one byte left after the message id, the tag reader returns
  the empty tag and empties the buffer, but the loop goes on to look the empty tag up in
  the table, and \<open>decode\<close> raises \<open>KeyError\<close> instead of returning the message.
\<close>

theorem trailing_byte_raises:
  "obj_type (Bytes [0]) = Inr ([], Str [])
   \<and> decode no_zlib (obj_cb 1) [0, 0, 0, 10, 0, 255, 255, 255, 255, 0] [10] = Some (Inl KeyError)"
  by (simp add: decode_def envelope_plain obj_str_null obj_type_short py_len_def
        short_tail_raises table_over_empty_tag)

subsection \<open>Compressed frames\<close>

lemma length_repr_byte: "1 \<le> length (repr_byte q c)"
  by (simp add: repr_byte_def)

lemma length_concat_repr: "length cs \<le> length (concat (map (repr_byte q) cs))"
proof (induction cs)
  case Nil
  show ?case by simp
next
  case (Cons c cs)
  with length_repr_byte [of q c] show ?case by simp
qed

lemma length_bytes_repr: "length bs + 3 \<le> length (bytes_repr bs)"
  using length_concat_repr [of "map unat bs"]
  by (simp add: bytes_repr_def Let_def)

lemma obj_str_on_str: "4 \<le> length s \<Longrightarrow> obj_str (Str s) = Inl TypeError"
  by (simp add: obj_str_def obj_len_data_def obj_int_def py_len_def data_to_def unpack_i_def)

text \<open>
  Claim C1 on the code: \<open>decode\<close> builds the canonical buffer with the \<open>str\<close> format
  \<open>'%s%s%s'\<close>, which in Python 3 yields the text of the three \<open>repr\<close>s and not
  bytes. The message id is then read from a \<open>str\<close>, \<open>struct.unpack\<close> raises
  \<open>TypeError\<close>, and no compressed frame with a valid zlib stream decodes to a message.
\<close>

theorem compressed_frame_raises:
  assumes "unpack_b (Bytes (take 1 (drop 4 data))) = Inr flag" and "flag \<noteq> 0"
    and "zlib_decompress (drop 5 data) = Inr inflated"
    and "int (length inflated) + 5 < 2147483648"
  shows "decode zlib_decompress cb data sep = Some (Inl TypeError)"
proof -
  obtain packed where p: "pack_i (int (length inflated) + 5) = Inr packed"
    using assms(4) by (simp add: pack_i_def Let_def)
  let ?s = "bytes_repr packed @ bytes_repr [0] @ bytes_repr inflated"
  have "9 \<le> length ?s"
    using length_bytes_repr [of packed] length_bytes_repr [of "[0]"]
      length_bytes_repr [of inflated]
    by simp
  then have "obj_str (data_from (Str ?s) 5) = Inl TypeError"
    by (simp add: data_from_def slice_from_def obj_str_on_str)
  with assms(1,2,3) p show ?thesis
    by (simp add: decode_def envelope_def Let_def)
qed

theorem compressed_frame_raises_witness:
  "decode zlib_sample (obj_cb 1)
     [0, 0, 0, 24, 1, 120, 156, 251, 255, 255, 255, 255, 204, 188, 18, 6, 6, 6, 45, 0, 45,
      198, 5, 114] [10]
   = Some (Inl TypeError)"
  using compressed_frame_raises [of
     "[0, 0, 0, 24, 1, 120, 156, 251, 255, 255, 255, 255, 204, 188, 18, 6, 6, 6, 45, 0, 45,
       198, 5, 114]" 1 zlib_sample "[255, 255, 255, 255, 105, 110, 116, 0, 0, 0, 42]"
     "obj_cb 1" "[10]"]
  by (simp add: unpack_b_def zlib_sample_def)

subsection \<open>The frame reader\<close>

lemma recv_loop_chunks:
  assumes "\<forall>j<length cs. sock (i + j) = Data (cs ! j)"
    and "sock (i + length cs) = Error EWOULDBLOCK"
  shows "recv_loop sock i buffer = Some (Inr (buffer @ concat cs))"
  using assms
proof (induction cs arbitrary: i buffer)
  case Nil
  then show ?case
    by (subst recv_loop.simps) simp
next
  case (Cons c cs)
  from Cons.prems(1) have h: "sock i = Data c"
    by (auto dest: spec [of _ 0])
  have "\<forall>j<length cs. sock (Suc i + j) = Data (cs ! j)"
  proof (intro allI impI)
    fix j assume "j < length cs"
    with Cons.prems(1) have "sock (i + Suc j) = Data ((c # cs) ! Suc j)"
      by (auto dest: spec [of _ "Suc j"])
    then show "sock (Suc i + j) = Data (cs ! j)" by simp
  qed
  moreover from Cons.prems(2) have "sock (Suc i + length cs) = Error EWOULDBLOCK"
    by simp
  ultimately have "recv_loop sock (Suc i) (buffer @ c) = Some (Inr ((buffer @ c) @ concat cs))"
    by (rule Cons.IH)
  with h show ?case
    by (subst recv_loop.simps) simp
qed

lemma unpack_i_prefix:
  "unpack_i (Bytes (slice_to (a # b # c # e # r) 4)) = Inr (be32 a b c e)"
  by (simp add: unpack_i_def slice_to_def)

text \<open>
  Claim C2, as stated, fails: a socket that delivers the five bytes \<open>00 00 00 0E 00\<close>
  and then would block makes the reader return those five bytes, although the prefix
  declares 14; nothing is raised.
\<close>

theorem short_frame_is_returned:
  "receive True (\<lambda>i. if i = 0 then Data [0, 0, 0, 14, 0] else Error EWOULDBLOCK)
     = Some (Inr [0, 0, 0, 14, 0])"
proof -
  have "recv_loop (\<lambda>i. if i = 0 then Data [0, 0, 0, 14, 0] else Error EWOULDBLOCK) 0 []
      = Some (Inr ([] @ concat [[0, 0, 0, 14, 0]]))"
    by (rule recv_loop_chunks) simp_all
  then show ?thesis
    by (simp add: receive_def unpack_i_def be32_def slice_to_def)
qed

text \<open>
  Claim C2, amended: when the socket delivers its chunks and then would block, with at
  least the 4 bytes of the prefix buffered, the reader raises nothing: if the buffered
  bytes number fewer than the declared length it returns all of them (a truncated
  frame), and if the declared length is not negative and at least that many bytes are
  buffered it returns exactly the first \<open>length\<close> bytes.
\<close>

theorem receive_slices_by_prefix:
  assumes "\<forall>j<length cs. sock j = Data (cs ! j)"
    and "sock (length cs) = Error EWOULDBLOCK"
    and "concat cs = a # b # c # e # rest"
  shows "(int (length (concat cs)) < be32 a b c e \<longrightarrow>
            receive True sock = Some (Inr (concat cs)))
       \<and> (0 \<le> be32 a b c e \<and> be32 a b c e \<le> int (length (concat cs)) \<longrightarrow>
            receive True sock = Some (Inr (take (nat (be32 a b c e)) (concat cs))))"
proof -
  have "recv_loop sock 0 [] = Some (Inr ([] @ concat cs))"
    using assms(1,2) by (intro recv_loop_chunks) simp_all
  then have r: "receive True sock = Some (Inr (slice_to (concat cs) (be32 a b c e)))"
    using assms(3) by (simp add: receive_def unpack_i_prefix)
  show ?thesis
    unfolding r by (auto simp add: slice_to_def)
qed

theorem receive_slices_by_prefix_witness:
  "receive True (\<lambda>i. if i = 0 then Data [0, 0, 0, 9, 0] else Error EWOULDBLOCK)
     = Some (Inr [0, 0, 0, 9, 0])
   \<and> receive True (\<lambda>i. if i = 0 then Data [0, 0, 0, 5] else if i = 1 then Data [0, 0, 0]
                       else Error EWOULDBLOCK)
     = Some (Inr [0, 0, 0, 5, 0])"
proof -
  have "\<forall>j<length [[0, 0, 0, 5], [0, 0, 0 :: byte]].
      (if j = 0 then Data [0, 0, 0, 5] else if j = 1 then Data [0, 0, 0]
       else Error EWOULDBLOCK) = Data ([[0, 0, 0, 5], [0, 0, 0]] ! j)"
    by (simp add: less_Suc_eq)
  then show ?thesis
    using receive_slices_by_prefix [of "[[0, 0, 0, 9, 0]]"
        "\<lambda>i. if i = 0 then Data [0, 0, 0, 9, 0] else Error EWOULDBLOCK" 0 0 0 9 "[0]"]
      receive_slices_by_prefix [of "[[0, 0, 0, 5], [0, 0, 0]]"
        "\<lambda>i. if i = 0 then Data [0, 0, 0, 5] else if i = 1 then Data [0, 0, 0]
             else Error EWOULDBLOCK" 0 0 0 5 "[0, 0, 0]"]
    by (simp add: be32_def)
qed

subsection \<open>Ordered maps\<close>

lemma dict_set_fresh: "k \<notin> fst ` set h \<Longrightarrow> dict_set h k v = h @ [(k, v)]"
  by (induction h) auto

lemma insert_all_Nil: "insert_all [] h = h"
  by (simp add: insert_all_def)

lemma insert_all_Cons: "insert_all ((k, v) # kvs) h = insert_all kvs (dict_set h k v)"
  by (simp add: insert_all_def)

lemma insert_all_fresh:
  "distinct (map fst kvs) \<Longrightarrow> fst ` set kvs \<inter> fst ` set h = {} \<Longrightarrow>
   insert_all kvs h = h @ kvs"
proof (induction kvs arbitrary: h)
  case Nil
  show ?case by (simp add: insert_all_Nil)
next
  case (Cons kv kvs)
  obtain k v where kv: "kv = (k, v)" by (cases kv)
  from Cons.prems kv have fresh: "k \<notin> fst ` set h" by auto
  from Cons.prems kv have "distinct (map fst kvs)"
    and "fst ` set kvs \<inter> fst ` set (h @ [(k, v)]) = {}"
    by auto
  then have "insert_all kvs (h @ [(k, v)]) = (h @ [(k, v)]) @ kvs"
    by (rule Cons.IH)
  with fresh kv show ?case
    by (simp add: insert_all_Cons dict_set_fresh)
qed

subsection \<open>Hashtables\<close>

lemma key_value_cycles_length:
  "key_value_cycles kd vd n d = Inr (kvs, d') \<Longrightarrow> length kvs = n"
  by (induction n arbitrary: d kvs) (auto split: sum.splits prod.splits)

lemma hashtable_items_cycles:
  assumes "cb type_keys = Some kd" and "cb type_values = Some vd"
  shows "hashtable_items cb type_keys type_values n h d = Inr (h', d') \<longleftrightarrow>
     (\<exists>kvs. key_value_cycles kd vd n d = Inr (kvs, d')
        \<and> (\<forall>k\<in>fst ` set kvs. hashable k) \<and> h' = insert_all kvs h)"
proof (induction n arbitrary: h d)
  case 0
  show ?case by (auto simp add: insert_all_Nil)
next
  case (Suc n)
  show ?case
  proof (cases "kd d")
    case (Inl e)
    with assms show ?thesis by (simp add: call_def)
  next
    case (Inr r)
    obtain k d1 where r: "r = (k, d1)" by (cases r)
    show ?thesis
    proof (cases "vd d1")
      case (Inl e)
      with assms Inr r show ?thesis by (simp add: call_def)
    next
      case vr: (Inr r2)
      obtain v d2 where r2: "r2 = (v, d2)" by (cases r2)
      show ?thesis
      proof (cases "hashable k")
        case True
        have "hashtable_items cb type_keys type_values (Suc n) h d
            = hashtable_items cb type_keys type_values n (dict_set h k v) d2"
          using assms Inr r vr r2 True by (simp add: call_def)
        moreover have "(\<exists>kvs. key_value_cycles kd vd (Suc n) d = Inr (kvs, d')
              \<and> (\<forall>x\<in>fst ` set kvs. hashable x) \<and> h' = insert_all kvs h)
          \<longleftrightarrow> (\<exists>kvs. key_value_cycles kd vd n d2 = Inr (kvs, d')
              \<and> (\<forall>x\<in>fst ` set kvs. hashable x) \<and> h' = insert_all kvs (dict_set h k v))"
          using Inr r vr r2 True
          by (auto simp add: insert_all_Cons split: sum.splits)
        ultimately show ?thesis
          using Suc.IH [of "dict_set h k v" d2] by simp
      next
        case False
        with assms Inr r vr r2 show ?thesis
          by (auto simp add: call_def split: sum.splits)
      qed
    qed
  qed
qed

lemma hashtable_items_unhashable:
  assumes "cb type_keys = Some kd" and "cb type_values = Some vd"
  shows "key_value_cycles kd vd n d = Inr (kvs, d') \<Longrightarrow> \<exists>k\<in>fst ` set kvs. \<not> hashable k \<Longrightarrow>
     hashtable_items cb type_keys type_values n h d = Inl TypeError"
proof (induction n arbitrary: h d kvs)
  case 0
  then show ?case by simp
next
  case (Suc n)
  from Suc.prems(1) obtain k d1 v d2 rest where
    a: "kd d = Inr (k, d1)" and b: "vd d1 = Inr (v, d2)"
    and c: "key_value_cycles kd vd n d2 = Inr (rest, d')" and e: "kvs = (k, v) # rest"
    by (auto split: sum.splits prod.splits)
  show ?case
  proof (cases "hashable k")
    case True
    with Suc.prems(2) e have "\<exists>x\<in>fst ` set rest. \<not> hashable x" by auto
    with c have "hashtable_items cb type_keys type_values n (dict_set h k v) d2 = Inl TypeError"
      by (rule Suc.IH)
    with assms a b True show ?thesis by (simp add: call_def)
  next
    case False
    with assms a b show ?thesis by (simp add: call_def)
  qed
qed

text \<open>
  Claim C8, as stated, fails: recognised type tags and a count \<open>N \<ge> 0\<close> do not make
  the decoder return a map. With the key tag \<open>arr\<close> and \<open>N = 1\<close> the key is a list,
  which is unhashable, and the insertion raises \<open>TypeError\<close>; with the key tag \<open>tim\<close>
  and a key of length 0 the key decoder raises \<open>ValueError\<close>.
\<close>

theorem hashtable_key_raises:
  "obj_hashtable (obj_cb 1)
     (Bytes [97, 114, 114, 105, 110, 116, 0, 0, 0, 1,
             105, 110, 116, 0, 0, 0, 0, 0, 0, 0, 5])
   = Inl TypeError
   \<and> obj_hashtable (obj_cb 1)
     (Bytes [116, 105, 109, 105, 110, 116, 0, 0, 0, 1, 0, 0, 0, 0, 5])
   = Inl ValueError"
  by (simp add: obj_hashtable_def obj_type_bytes bytes_decode_def obj_int_bytes be32_def
        call_def table_over_def py_def obj_array_def returning_def obj_time_def
        obj_len_data_1 len_data_value_bytes py_int_empty)

text \<open>
  Claim C8, amended: for a hashtable whose key and value type tags are in the table and
  whose declared count is \<open>N \<ge> 0\<close>, the decoder returns exactly when the \<open>N\<close>
  key/value decode cycles, performed in wire order, all succeed and every decoded key is
  hashable; what it returns is the insertion-ordered map obtained by inserting the pairs
  in the order read. When the keys are distinct that map is the list of the \<open>N\<close> pairs
  itself: its iteration order is the order read and its size is \<open>N\<close>. When the cycles
  succeed but a decoded key is unhashable the decoder raises \<open>TypeError\<close>, and when a
  key or value decoder raises, the decoder raises too.
\<close>

theorem hashtable_is_n_cycles_in_wire_order:
  assumes "obj_type d = Inr (type_keys, d1)"
    and "obj_type d1 = Inr (type_values, d2)"
    and "obj_int d2 = Inr (count, d3)"
    and "0 \<le> count"
    and "cb type_keys = Some kd"
    and "cb type_values = Some vd"
  shows "(obj_hashtable cb d = Inr (v, d') \<longleftrightarrow>
            (\<exists>kvs. key_value_cycles kd vd (nat count) d3 = Inr (kvs, d')
               \<and> (\<forall>k\<in>fst ` set kvs. hashable k)
               \<and> v = PWeechatDict (insert_all kvs [])))
       \<and> (\<forall>kvs d4. key_value_cycles kd vd (nat count) d3 = Inr (kvs, d4) \<longrightarrow>
             length kvs = nat count
             \<and> (distinct (map fst kvs) \<longrightarrow> insert_all kvs [] = kvs \<and> length (insert_all kvs []) = nat count))
       \<and> (\<forall>kvs d4. key_value_cycles kd vd (nat count) d3 = Inr (kvs, d4)
             \<and> (\<exists>k\<in>fst ` set kvs. \<not> hashable k) \<longrightarrow>
             obj_hashtable cb d = Inl TypeError)
       \<and> (\<forall>e. key_value_cycles kd vd (nat count) d3 = Inl e \<longrightarrow>
             (\<exists>e'. obj_hashtable cb d = Inl e'))"
proof (intro conjI allI impI)
  have r: "\<And>v d'. obj_hashtable cb d = Inr (v, d') \<longleftrightarrow>
            (\<exists>kvs. key_value_cycles kd vd (nat count) d3 = Inr (kvs, d')
               \<and> (\<forall>k\<in>fst ` set kvs. hashable k)
               \<and> v = PWeechatDict (insert_all kvs []))"
  proof -
    fix v d'
    have "obj_hashtable cb d = Inr (v, d') \<longleftrightarrow>
        (\<exists>h. hashtable_items cb type_keys type_values (nat count) [] d3 = Inr (h, d')
           \<and> v = PWeechatDict h)"
      using assms(1,2,3) by (auto simp add: obj_hashtable_def split: sum.splits)
    also have "\<dots> \<longleftrightarrow> (\<exists>kvs. key_value_cycles kd vd (nat count) d3 = Inr (kvs, d')
                 \<and> (\<forall>k\<in>fst ` set kvs. hashable k)
                 \<and> v = PWeechatDict (insert_all kvs []))"
      using hashtable_items_cycles [OF assms(5,6)] by auto
    finally show "obj_hashtable cb d = Inr (v, d') \<longleftrightarrow>
            (\<exists>kvs. key_value_cycles kd vd (nat count) d3 = Inr (kvs, d')
               \<and> (\<forall>k\<in>fst ` set kvs. hashable k)
               \<and> v = PWeechatDict (insert_all kvs []))" .
  qed
  show "obj_hashtable cb d = Inr (v, d') \<longleftrightarrow>
            (\<exists>kvs. key_value_cycles kd vd (nat count) d3 = Inr (kvs, d')
               \<and> (\<forall>k\<in>fst ` set kvs. hashable k)
               \<and> v = PWeechatDict (insert_all kvs []))"
    by (rule r)
  {
    fix e
    assume f: "key_value_cycles kd vd (nat count) d3 = Inl e"
    show "\<exists>e'. obj_hashtable cb d = Inl e'"
    proof (cases "obj_hashtable cb d")
      case (Inl e')
      then show ?thesis by blast
    next
      case (Inr x)
      obtain v0 d0 where "x = (v0, d0)" by (cases x)
      with Inr r [of v0 d0] f show ?thesis by simp
    qed
  }
next
  fix kvs d4
  assume "key_value_cycles kd vd (nat count) d3 = Inr (kvs, d4)"
  then show "length kvs = nat count"
    by (rule key_value_cycles_length)
next
  fix kvs d4
  assume "key_value_cycles kd vd (nat count) d3 = Inr (kvs, d4)" and "distinct (map fst kvs)"
  then show "insert_all kvs [] = kvs"
    by (simp add: insert_all_fresh)
next
  fix kvs d4
  assume "key_value_cycles kd vd (nat count) d3 = Inr (kvs, d4)" and "distinct (map fst kvs)"
  then show "length (insert_all kvs []) = nat count"
    by (simp add: insert_all_fresh key_value_cycles_length)
next
  fix kvs d4
  assume "key_value_cycles kd vd (nat count) d3 = Inr (kvs, d4)
             \<and> (\<exists>k\<in>fst ` set kvs. \<not> hashable k)"
  then have "hashtable_items cb type_keys type_values (nat count) [] d3 = Inl TypeError"
    using hashtable_items_unhashable [OF assms(5,6)] by blast
  with assms(1,2,3) show "obj_hashtable cb d = Inl TypeError"
    by (simp add: obj_hashtable_def)
qed

lemma tag_str: "bytes_decode [115, 116, 114] = Inr (py ''str'')"
  by (simp add: bytes_decode_def py_def)

lemma table_str: "table_over inner (py ''str'') = Some (returning opt_str obj_str)"
  by (simp add: table_over_def py_def)

lemma table_int: "table_over inner (py ''int'') = Some (returning PInt obj_int)"
  by (simp add: table_over_def py_def)

lemma obj_str_bytes:
  "obj_str (Bytes (a # b # c # e # r)) =
     (case len_data_value (be32 a b c e) (Bytes r) of
        Inl x \<Rightarrow> Inl x
      | Inr (x, d') \<Rightarrow> Inr (x, d'))"
  by (simp add: obj_str_def obj_len_data_4 split: sum.splits option.splits)

theorem hashtable_is_n_cycles_in_wire_order_witness:
  "obj_hashtable (obj_cb 1)
     (Bytes [115, 116, 114, 105, 110, 116, 0, 0, 0, 2,
             0, 0, 0, 1, 97, 0, 0, 0, 1, 0, 0, 0, 1, 98, 0, 0, 0, 2])
   = Inr (PWeechatDict [(PStr [97], PInt 1), (PStr [98], PInt 2)], Bytes [])"
proof -
  let ?items = "[0, 0, 0, 1, 97, 0, 0, 0, 1, 0, 0, 0, 1, 98, 0, 0, 0, 2] :: byte list"
  have h1: "obj_type (Bytes ([115, 116, 114, 105, 110, 116, 0, 0, 0, 2] @ ?items))
      = Inr (py ''str'', Bytes ([105, 110, 116, 0, 0, 0, 2] @ ?items))"
    by (simp add: obj_type_bytes tag_str)
  have h2: "obj_type (Bytes ([105, 110, 116, 0, 0, 0, 2] @ ?items))
      = Inr (py ''int'', Bytes ([0, 0, 0, 2] @ ?items))"
    by (simp add: obj_type_bytes tag_int)
  have h3: "obj_int (Bytes ([0, 0, 0, 2] @ ?items)) = Inr (2, Bytes ?items)"
    by (simp add: obj_int_bytes be32_def)
  have h4: "(0::int) \<le> 2" by simp
  have h5: "obj_cb 1 (py ''str'') = Some (returning opt_str obj_str)"
    by (simp add: table_str)
  have h6: "obj_cb 1 (py ''int'') = Some (returning PInt obj_int)"
    by (simp add: table_int)
  have n2: "nat 2 = Suc (Suc 0)" by simp
  have cyc: "key_value_cycles (returning opt_str obj_str) (returning PInt obj_int) (nat 2)
               (Bytes ?items)
      = Inr ([(PStr [97], PInt 1), (PStr [98], PInt 2)], Bytes [])"
    unfolding n2
    by (simp add: returning_def obj_str_bytes len_data_value_bytes obj_int_bytes be32_def
          opt_str_def)
  have ins: "insert_all [(PStr [97], PInt 1), (PStr [98], PInt 2)] []
      = [(PStr [97], PInt 1), (PStr [98], PInt 2)]"
    by (simp add: insert_all_def)
  from hashtable_is_n_cycles_in_wire_order [OF h1 h2 h3 h4 h5 h6,
      of "PWeechatDict [(PStr [97], PInt 1), (PStr [98], PInt 2)]" "Bytes []"] cyc ins
  show ?thesis by simp
qed

subsection \<open>Hdata items\<close>

lemma decode_seq_length: "decode_seq decs d = Inr (vs, d') \<Longrightarrow> length vs = length decs"
  by (induction decs arbitrary: d vs) (auto split: sum.splits prod.splits)

lemma decode_seq_replicate_results:
  "decode_seq (replicate n dec) d = Inr (vs, d') \<Longrightarrow> v \<in> set vs \<Longrightarrow>
   \<exists>s s'. dec s = Inr (v, s')"
proof (induction n arbitrary: d vs)
  case 0
  then show ?case by simp
next
  case (Suc n)
  from Suc.prems(1) obtain x d1 xs where
    a: "dec d = Inr (x, d1)" and b: "decode_seq (replicate n dec) d1 = Inr (xs, d')"
    and c: "vs = x # xs"
    by (auto split: sum.splits prod.splits)
  show ?case
  proof (cases "v = x")
    case True
    with a show ?thesis by blast
  next
    case False
    with c Suc.prems(2) have "v \<in> set xs" by simp
    with b show ?thesis by (rule Suc.IH)
  qed
qed

lemma hdata_pointers_seq:
  "hdata_pointers list_path acc d =
     (case decode_seq (map (\<lambda>seg. returning opt_str obj_ptr) list_path) d of
        Inl e \<Rightarrow> Inl e
      | Inr (ps, d1) \<Rightarrow> Inr (acc @ ps, d1))"
proof (induction list_path arbitrary: acc d)
  case Nil
  show ?case by simp
next
  case (Cons seg list_path)
  show ?case
    by (simp add: returning_def Cons.IH split: sum.splits prod.splits)
qed

lemma hdata_fields_seq:
  "hdata_fields cb (map (\<lambda>(key, t). [key, t]) declared) item d =
     (case decode_seq (map (\<lambda>(key, t). call cb t) declared) d of
        Inl e \<Rightarrow> Inl e
      | Inr (vals, d1) \<Rightarrow>
          Inr (insert_all (zip (map (\<lambda>(key, t). PStr key) declared) vals) item, d1))"
proof (induction declared arbitrary: item d)
  case Nil
  show ?case by (simp add: insert_all_Nil)
next
  case (Cons kt declared)
  obtain key t where kt: "kt = (key, t)" by (cases kt)
  show ?case
    by (simp add: kt Cons.IH insert_all_Cons split: sum.splits prod.splits)
qed

lemma hdata_items_seq:
  "hdata_items cb list_path keys_types n acc d =
     (case decode_seq (replicate n (hdata_item cb list_path keys_types)) d of
        Inl e \<Rightarrow> Inl e
      | Inr (its, d1) \<Rightarrow> Inr (acc @ its, d1))"
proof (induction n arbitrary: acc d)
  case 0
  show ?case by simp
next
  case (Suc n)
  show ?case
    by (simp add: Suc.IH split: sum.splits prod.splits)
qed

lemma hdata_keys_pairs:
  "map (split_on (of_char CHR '':'')) list_keys = map (\<lambda>(key, t). [key, t]) declared \<Longrightarrow>
   hdata_keys list_keys keys_types dict_keys =
     Inr (keys_types @ map (\<lambda>(key, t). [key, t]) declared,
          insert_all (map (\<lambda>(key, t). (PStr key, PStr t)) declared) dict_keys)"
proof (induction list_keys arbitrary: declared keys_types dict_keys)
  case Nil
  then show ?case by (simp add: insert_all_Nil)
next
  case (Cons k list_keys)
  from Cons.prems obtain key t rest where d: "declared = (key, t) # rest"
    and s: "split_on (of_char CHR '':'') k = [key, t]"
    and r: "map (split_on (of_char CHR '':'')) list_keys = map (\<lambda>(key, t). [key, t]) rest"
    by (cases declared) auto
  show ?case
    using s Cons.IH [OF r] by (simp add: d Let_def insert_all_Cons)
qed

lemma zip_keys_fresh:
  assumes "distinct (map fst declared)" and "length vals = length declared"
    and "py ''__path'' \<notin> set (map fst declared)"
  shows "insert_all (zip (map (\<lambda>(key, t). PStr key) declared) vals)
           [(PStr (py ''__path''), PList [])]
       = (PStr (py ''__path''), PList []) # zip (map (\<lambda>(key, t). PStr key) declared) vals"
proof -
  let ?ks = "map (\<lambda>(key, t). PStr key) declared"
  have ks: "?ks = map PStr (map fst declared)"
    by (simp add: case_prod_beta)
  have m: "map fst (zip ?ks vals) = ?ks"
    using assms(2) by simp
  have dk: "distinct ?ks"
    unfolding ks using assms(1) by (simp add: distinct_map inj_on_def)
  have nk: "PStr (py ''__path'') \<notin> set ?ks"
    unfolding ks using assms(3) by auto
  have d: "distinct (map fst (zip ?ks vals))"
    unfolding m by (rule dk)
  have "fst ` set (zip ?ks vals) = set (map fst (zip ?ks vals))"
    by simp
  then have "fst ` set (zip ?ks vals) = set ?ks"
    unfolding m .
  with nk have f: "fst ` set (zip ?ks vals) \<inter> fst ` set [(PStr (py ''__path''), PList [])] = {}"
    by simp
  have "insert_all (zip ?ks vals) [(PStr (py ''__path''), PList [])]
      = [(PStr (py ''__path''), PList [])] @ zip ?ks vals"
    using d f by (rule insert_all_fresh)
  then show ?thesis by simp
qed

lemma hdata_item_is_ref:
  assumes "distinct (map fst declared)" and "py ''__path'' \<notin> set (map fst declared)"
  shows "hdata_item cb list_path (map (\<lambda>(key, t). [key, t]) declared) d
       = hdata_item_ref cb list_path declared d"
proof (cases "decode_seq (map (\<lambda>seg. returning opt_str obj_ptr) list_path) d")
  case (Inl e)
  then show ?thesis
    by (simp add: hdata_item_def hdata_item_ref_def hdata_pointers_seq)
next
  case (Inr r)
  obtain pointers d1 where r: "r = (pointers, d1)" by (cases r)
  show ?thesis
  proof (cases "decode_seq (map (\<lambda>(key, t). call cb t) declared) d1")
    case (Inl e)
    with Inr r show ?thesis
      by (simp add: hdata_item_def hdata_item_ref_def hdata_pointers_seq hdata_fields_seq)
  next
    case fr: (Inr r2)
    obtain vals d2 where r2: "r2 = (vals, d2)" by (cases r2)
    from fr r2 have "length vals = length declared"
      using decode_seq_length by fastforce
    from zip_keys_fresh [OF assms(1) this assms(2)] Inr r fr r2 show ?thesis
      by (simp add: hdata_item_def hdata_item_ref_def hdata_pointers_seq hdata_fields_seq)
  qed
qed

lemma hdata_item_ref_shape:
  assumes "hdata_item_ref cb list_path declared s = Inr (item, s')"
  shows "\<exists>pointers vals.
      item = PWeechatDict ((PStr (py ''__path''), PList pointers)
                           # zip (map (\<lambda>(key, t). PStr key) declared) vals)
      \<and> length pointers = length list_path \<and> length vals = length declared"
proof -
  from assms obtain pointers s1 vals where
    p: "decode_seq (map (\<lambda>seg. returning opt_str obj_ptr) list_path) s = Inr (pointers, s1)"
    and f: "decode_seq (map (\<lambda>(key, t). call cb t) declared) s1 = Inr (vals, s')"
    and i: "item = PWeechatDict ((PStr (py ''__path''), PList pointers)
                           # zip (map (\<lambda>(key, t). PStr key) declared) vals)"
    by (auto simp add: hdata_item_ref_def split: sum.splits prod.splits)
  from p have "length pointers = length list_path"
    using decode_seq_length by fastforce
  moreover from f have "length vals = length declared"
    using decode_seq_length by fastforce
  ultimately show ?thesis using i by blast
qed

lemma declared_keys_map:
  assumes "distinct (map fst declared)"
  shows "insert_all (map (\<lambda>(key, t). (PStr key, PStr t)) declared) []
       = map (\<lambda>(key, t). (PStr key, PStr t)) declared"
proof -
  let ?kvs = "map (\<lambda>(key, t). (PStr key, PStr t)) declared"
  have "map fst ?kvs = map PStr (map fst declared)"
    by (simp add: case_prod_beta)
  then have "distinct (map fst ?kvs)"
    using assms by (simp add: distinct_map inj_on_def del: map_map)
  then have "insert_all ?kvs [] = [] @ ?kvs"
    by (rule insert_all_fresh) simp
  then show ?thesis by simp
qed

lemma obj_int_short: "py_len d < 4 \<Longrightarrow> obj_int d = Inr (0, Str [])"
  by (simp add: obj_int_def)

lemma table_int_code: "table_over inner [105, 110, 116] = Some (returning PInt obj_int)"
  using table_int [of inner] by (simp add: py_def)

lemma table_str_code: "table_over inner [115, 116, 114] = Some (returning opt_str obj_str)"
  using table_str [of inner] by (simp add: py_def)

text \<open>
  Claim C7, as stated, fails. With the key \<open>x\<close> declared twice (\<open>x:int,x:int\<close>, so
  \<open>K = 2\<close>) the item holds one field \<open>x\<close>, with the value decoded last; and when the
  buffer ends before the item, the entry under \<open>__path\<close> is \<open>None\<close>, not a pointer
  string.
\<close>

theorem hdata_repeated_key_keeps_one_field:
  "obj_hdata (obj_cb 1)
     (Bytes [0, 0, 0, 1, 97,
             0, 0, 0, 11, 120, 58, 105, 110, 116, 44, 120, 58, 105, 110, 116,
             0, 0, 0, 1,
             1, 49, 0, 0, 0, 7, 0, 0, 0, 8])
   = Inr (PDict [(PStr (py ''path''), PList [PStr [97]]),
                 (PStr (py ''keys''), PWeechatDict [(PStr [120], PStr (py ''int''))]),
                 (PStr (py ''count''), PInt 1),
                 (PStr (py ''items''),
                  PList [PWeechatDict [(PStr (py ''__path''), PList [PStr (py ''0x1'')]),
                                       (PStr [120], PInt 8)]])],
          Bytes [])
   \<and> obj_hdata (obj_cb 1)
     (Bytes [0, 0, 0, 1, 97, 0, 0, 0, 5, 120, 58, 105, 110, 116, 0, 0, 0, 1])
   = Inr (PDict [(PStr (py ''path''), PList [PStr [97]]),
                 (PStr (py ''keys''), PWeechatDict [(PStr [120], PStr (py ''int''))]),
                 (PStr (py ''count''), PInt 1),
                 (PStr (py ''items''),
                  PList [PWeechatDict [(PStr (py ''__path''), PList [PNone]),
                                       (PStr [120], PInt 0)]])],
          Str [])"
  by (simp add: obj_hdata_def obj_str_bytes len_data_value_bytes obj_int_bytes obj_int_short
        be32_def split_if_def hdata_item_def obj_ptr_def obj_len_data_1 obj_len_data_short
        py_len_def opt_str_def call_def table_int_code returning_def py_def Let_def)

text \<open>
  Claim C7, amended: for an hdata with \<open>P\<close> path segments, \<open>K\<close> declared key:type
  pairs whose key names are pairwise distinct and differ from \<open>__path\<close>, and a
  non-negative item count, decoding is the same as decoding count items one after the
  other, each by \<open>P\<close> pointer decodes in path order followed by \<open>K\<close> field decodes in
  declared key order, each field with the decoder of its declared type tag. Every
  decoded item holds, under the reserved \<open>__path\<close> key, the list of the \<open>P\<close> pointer
  results (a pointer string, or null where the buffer had run out) and after it exactly
  the \<open>K\<close> declared fields in declared order, whatever the field types.
\<close>

theorem hdata_items_follow_declaration:
  assumes "obj_str d = Inr (path, d1)"
    and "obj_str d1 = Inr (keys, d2)"
    and "obj_int d2 = Inr (count, d3)"
    and "0 \<le> count"
    and "map (split_on (of_char CHR '':'')) (split_if (of_char CHR '','') keys)
           = map (\<lambda>(key, t). [key, t]) declared"
    and "distinct (map fst declared)"
    and "py ''__path'' \<notin> set (map fst declared)"
  shows "obj_hdata cb d =
      (case decode_seq
              (replicate (nat count)
                 (hdata_item_ref cb (split_if (of_char CHR ''/'') path) declared)) d3 of
         Inl e \<Rightarrow> Inl e
       | Inr (items, d4) \<Rightarrow>
           Inr (PDict [(PStr (py ''path''), PList (map PStr (split_if (of_char CHR ''/'') path))),
                       (PStr (py ''keys''),
                        PWeechatDict (map (\<lambda>(key, t). (PStr key, PStr t)) declared)),
                       (PStr (py ''count''), PInt count),
                       (PStr (py ''items''), PList items)],
                d4))
    \<and> (\<forall>items d4.
          decode_seq
            (replicate (nat count)
               (hdata_item_ref cb (split_if (of_char CHR ''/'') path) declared)) d3
            = Inr (items, d4) \<longrightarrow>
          length items = nat count
          \<and> (\<forall>item\<in>set items. \<exists>pointers vals.
                item = PWeechatDict ((PStr (py ''__path''), PList pointers)
                                     # zip (map (\<lambda>(key, t). PStr key) declared) vals)
                \<and> length pointers = length (split_if (of_char CHR ''/'') path)
                \<and> length vals = length declared))"
proof (intro conjI allI impI ballI)
  let ?lp = "split_if (of_char CHR ''/'') path"
  have k: "hdata_keys (split_if (of_char CHR '','') keys) [] []
      = Inr (map (\<lambda>(key, t). [key, t]) declared,
             map (\<lambda>(key, t). (PStr key, PStr t)) declared)"
    using hdata_keys_pairs [OF assms(5), of "[]" "[]"] declared_keys_map [OF assms(6)]
    by simp
  have i: "hdata_item cb ?lp (map (\<lambda>(key, t). [key, t]) declared)
      = hdata_item_ref cb ?lp declared"
    using hdata_item_is_ref [OF assms(6,7)] by (intro ext)
  show "obj_hdata cb d =
      (case decode_seq (replicate (nat count) (hdata_item_ref cb ?lp declared)) d3 of
         Inl e \<Rightarrow> Inl e
       | Inr (items, d4) \<Rightarrow>
           Inr (PDict [(PStr (py ''path''), PList (map PStr ?lp)),
                       (PStr (py ''keys''),
                        PWeechatDict (map (\<lambda>(key, t). (PStr key, PStr t)) declared)),
                       (PStr (py ''count''), PInt count),
                       (PStr (py ''items''), PList items)],
                d4))"
    using assms(1,2,3) k i
    by (simp add: obj_hdata_def Let_def hdata_items_seq split: sum.splits prod.splits)
next
  fix items d4
  assume "decode_seq
            (replicate (nat count)
               (hdata_item_ref cb (split_if (of_char CHR ''/'') path) declared)) d3
            = Inr (items, d4)"
  then show "length items = nat count"
    using decode_seq_length by fastforce
next
  fix items d4 item
  assume s: "decode_seq
            (replicate (nat count)
               (hdata_item_ref cb (split_if (of_char CHR ''/'') path) declared)) d3
            = Inr (items, d4)" and m: "item \<in> set items"
  from decode_seq_replicate_results [OF s m] obtain s1 s2 where
    "hdata_item_ref cb (split_if (of_char CHR ''/'') path) declared s1 = Inr (item, s2)"
    by blast
  then show "\<exists>pointers vals.
                item = PWeechatDict ((PStr (py ''__path''), PList pointers)
                                     # zip (map (\<lambda>(key, t). PStr key) declared) vals)
                \<and> length pointers = length (split_if (of_char CHR ''/'') path)
                \<and> length vals = length declared"
    by (rule hdata_item_ref_shape)
qed

theorem hdata_items_follow_declaration_witness:
  "obj_hdata (obj_cb 1)
     (Bytes [0, 0, 0, 3, 97, 47, 98,
             0, 0, 0, 11, 120, 58, 105, 110, 116, 44, 121, 58, 115, 116, 114,
             0, 0, 0, 1,
             1, 49, 1, 50, 0, 0, 0, 7, 0, 0, 0, 2, 104, 105])
   = Inr (PDict [(PStr (py ''path''), PList [PStr [97], PStr [98]]),
                 (PStr (py ''keys''),
                  PWeechatDict [(PStr [120], PStr (py ''int'')), (PStr [121], PStr (py ''str''))]),
                 (PStr (py ''count''), PInt 1),
                 (PStr (py ''items''),
                  PList [PWeechatDict [(PStr (py ''__path''),
                                        PList [PStr (py ''0x1''), PStr (py ''0x2'')]),
                                       (PStr [120], PInt 7),
                                       (PStr [121], PStr [104, 105])]])],
          Bytes [])"
proof -
  let ?item = "[1, 49, 1, 50, 0, 0, 0, 7, 0, 0, 0, 2, 104, 105] :: byte list"
  let ?keys = "[120, 58, 105, 110, 116, 44, 121, 58, 115, 116, 114] :: byte list"
  let ?declared = "[([120], py ''int''), ([121], py ''str'')] :: (pystr \<times> pystr) list"
  have h1: "obj_str (Bytes ([0, 0, 0, 3, 97, 47, 98] @ [0, 0, 0, 11] @ ?keys @ [0, 0, 0, 1] @ ?item))
      = Inr (Some [97, 47, 98], Bytes ([0, 0, 0, 11] @ ?keys @ [0, 0, 0, 1] @ ?item))"
    by (simp add: obj_str_bytes len_data_value_bytes be32_def)
  have h2: "obj_str (Bytes ([0, 0, 0, 11] @ ?keys @ [0, 0, 0, 1] @ ?item))
      = Inr (Some (map unat ?keys), Bytes ([0, 0, 0, 1] @ ?item))"
    by (simp add: obj_str_bytes len_data_value_bytes be32_def)
  have h3: "obj_int (Bytes ([0, 0, 0, 1] @ ?item)) = Inr (1, Bytes ?item)"
    by (simp add: obj_int_bytes be32_def)
  have h4: "(0::int) \<le> 1" by simp
  have h5: "map (split_on (of_char CHR '':'')) (split_if (of_char CHR '','') (Some (map unat ?keys)))
      = map (\<lambda>(key, t). [key, t]) ?declared"
    by (simp add: split_if_def py_def)
  have h6: "distinct (map fst ?declared)" by simp
  have h7: "py ''__path'' \<notin> set (map fst ?declared)" by (simp add: py_def)
  have it: "hdata_item_ref (obj_cb 1) (split_if (of_char CHR ''/'') (Some [97, 47, 98]))
              ?declared (Bytes ?item)
      = Inr (PWeechatDict [(PStr (py ''__path''), PList [PStr (py ''0x1''), PStr (py ''0x2'')]),
                           (PStr [120], PInt 7), (PStr [121], PStr [104, 105])], Bytes [])"
    by (simp add: hdata_item_ref_def split_if_def returning_def obj_ptr_def obj_len_data_1
          len_data_value_bytes opt_str_def call_def table_int_code table_str_code py_def
          obj_int_bytes obj_str_bytes be32_def)
  from hdata_items_follow_declaration [OF h1 h2 h3 h4 h5 h6 h7, of "obj_cb 1"] it
  show ?thesis by (simp add: split_if_def py_def)
qed

end
